theory Spec2Isabelle
  imports Complex_Main "HOL-Library.AList"
begin

section \<open>The duel server: data model\<close>

text \<open>
  The embedding follows \<^verbatim>\<open>server.js\<close>. JavaScript numbers that hold coordinates,
  velocities, powers and angles are modelled as reals (rounding of doubles is not
  modelled); millisecond timestamps read from \<^verbatim>\<open>Date.now()\<close> and hit points are
  integers. Every run of a request handler or of the interval callback receives the
  clock reading \<open>now\<close> as an argument; the readings made inside one run are modelled
  as one value. The handlers are synchronous after the request body has been read, so
  each one is a function from registry to registry.
\<close>

abbreviation GRAVITY :: real where "GRAVITY \<equiv> 900"
abbreviation PLAYER_RADIUS :: real where "PLAYER_RADIUS \<equiv> 28"
abbreviation PROJECTILE_RADIUS :: real where "PROJECTILE_RADIUS \<equiv> 8"
abbreviation PROJECTILE_LIFETIME_MS :: int where "PROJECTILE_LIFETIME_MS \<equiv> 6000"
abbreviation ARENA_WIDTH :: real where "ARENA_WIDTH \<equiv> 1000"
abbreviation ARENA_HEIGHT :: real where "ARENA_HEIGHT \<equiv> 560"
abbreviation HIT_COOLDOWN_MS :: int where "HIT_COOLDOWN_MS \<equiv> 900"
abbreviation FIRE_COOLDOWN_MS :: int where "FIRE_COOLDOWN_MS \<equiv> 1500"
abbreviation START_HP :: int where "START_HP \<equiv> 5"

text \<open>
  The object returned by \<^verbatim>\<open>playerStartState\<close> (no \<^verbatim>\<open>id\<close> yet), and a session,
  which is that object with the \<^verbatim>\<open>id\<close> field in front.
\<close>

record start_state =
  s_slot :: nat
  s_hp :: int
  s_cooldownUntil :: int
  s_x :: real
  s_y :: real
  s_color :: string
  s_facing :: int
  s_lastSeenAt :: int

record player =
  player_id :: string
  slot :: nat
  hp :: int
  cooldownUntil :: int
  player_x :: real
  player_y :: real
  color :: string
  facing :: int
  lastSeenAt :: int

text \<open>
  The \<^verbatim>\<open>playerId\<close> of a fire request is whatever the JSON body holds. Used as
  a property key (\<^verbatim>\<open>room.players[playerId]\<close>) and in a template string it is
  converted to a string; stored as \<^verbatim>\<open>ownerId\<close> and compared with \<^verbatim>\<open>===\<close> it is the
  value itself. \<open>Str s\<close> is the string \<open>s\<close>; \<open>Obj s\<close> is a value that is not a string
  and whose string form is \<open>s\<close>, such as the array \<^verbatim>\<open>[s]\<close>. (A number, a boolean or
  \<^verbatim>\<open>null\<close> never has the string form of a session id or of a property name, so such
  a value behaves as any key that is absent.)
\<close>

datatype js_id = Str string | Obj string

fun key_of :: "js_id \<Rightarrow> string" where
  "key_of (Str s) = s"
| "key_of (Obj s) = s"

text \<open>
  A projectile. Its \<^verbatim>\<open>id\<close> is the template string
  \<^verbatim>\<open>`${playerId}-${now}`\<close>, kept as the pair of its two parts. The coordinates
  are numbers or, for a projectile fired through an inherited property (see
  \<open>fire_room\<close>), \<^verbatim>\<open>undefined\<close> or \<^verbatim>\<open>NaN\<close>: \<open>None\<close> stands for both.
\<close>

record projectile =
  proj_id :: "string \<times> int"
  ownerId :: js_id
  proj_x :: "real option"
  proj_y :: "real option"
  vx :: real
  vy :: real
  bornAt :: int

text \<open>
  A room id is the template string \<^verbatim>\<open>`room-${Date.now()}-${Math.floor(Math.random() * 1000)}`\<close>;
  the string determines its two numbers, so it is kept as the pair. A room id sent by a
  client that has no such form is any id absent from the registry.
\<close>

datatype room_id = RoomId int int

text \<open>
  \<^verbatim>\<open>room.players\<close> is an object keyed by session id: an association list in key
  order (insertion order, the keys being UUID strings). Assigning to a key is
  \<^const>\<open>AList.update\<close>: in place for a key that exists, appended otherwise.
  \<^verbatim>\<open>winner\<close> is \<^verbatim>\<open>null\<close> (\<open>None\<close>) or the \<^verbatim>\<open>ownerId\<close> of a projectile.
\<close>

record room =
  r_id :: room_id
  players :: "(string \<times> player) list"
  projectiles :: "projectile list"
  lastHitAt :: int
  started :: bool
  winner :: "js_id option"

text \<open>
  \<^verbatim>\<open>rooms\<close> is a \<^verbatim>\<open>Map\<close> from room id to room, iterated in insertion order.
  A room object is a reference held by the map: the model writes the changed room back
  under its key.
\<close>

type_synonym registry = "(room_id \<times> room) list"

section \<open>Helpers of the server\<close>

definition makeRoom :: "room_id \<Rightarrow> room" where
  "makeRoom i = \<lparr>r_id = i, players = [], projectiles = [], lastHitAt = 0,
                 started = False, winner = None\<rparr>"

definition playerStartState :: "nat \<Rightarrow> int \<Rightarrow> start_state" where
  "playerStartState sl now =
     (let left = (sl = 0) in
      \<lparr>s_slot = sl,
       s_hp = START_HP,
       s_cooldownUntil = 0,
       s_x = (if left then 120 else ARENA_WIDTH - 120),
       s_y = ARENA_HEIGHT - 80,
       s_color = (if left then ''#4c9dff'' else ''#ff5b8a''),
       s_facing = (if left then 1 else - 1),
       s_lastSeenAt = now\<rparr>)"

text \<open>The object literal \<^verbatim>\<open>{ id, ...playerStartState(slot) }\<close>.\<close>

definition with_id :: "string \<Rightarrow> start_state \<Rightarrow> player" where
  "with_id i s =
     \<lparr>player_id = i, slot = s_slot s, hp = s_hp s, cooldownUntil = s_cooldownUntil s,
      player_x = s_x s, player_y = s_y s, color = s_color s, facing = s_facing s,
      lastSeenAt = s_lastSeenAt s\<rparr>"

text \<open>
  JavaScript truthiness of \<^verbatim>\<open>room.winner\<close>: \<^verbatim>\<open>null\<close> and the empty string are
  falsy, every other string and every object are truthy.
\<close>

definition truthy :: "js_id option \<Rightarrow> bool" where
  "truthy w = (case w of None \<Rightarrow> False | Some (Str s) \<Rightarrow> s \<noteq> [] | Some (Obj s) \<Rightarrow> True)"

text \<open>
  \<^verbatim>\<open>room.players[key]\<close>. \<^verbatim>\<open>room.players\<close> is a plain object, so the lookup
  finds the session stored under the key or, when there is none, a property that every
  object inherits from \<^verbatim>\<open>Object.prototype\<close>: for each of the twelve names below the
  result is a function of the runtime (or, for \<^verbatim>\<open>__proto__\<close>, the prototype
  itself), which is truthy.
\<close>

definition proto_names :: "string list" where
  "proto_names =
     [''constructor'', ''__defineGetter__'', ''__defineSetter__'', ''hasOwnProperty'',
      ''__lookupGetter__'', ''__lookupSetter__'', ''isPrototypeOf'',
      ''propertyIsEnumerable'', ''toString'', ''valueOf'', ''__proto__'',
      ''toLocaleString'']"

text \<open>
  The handlers write on what the lookup returns: \<^verbatim>\<open>cooldownUntil\<close> (fire) or
  \<^verbatim>\<open>lastSeenAt\<close> (state). When that is an inherited object the write lands in the
  runtime, outside the registry, where later lookups read it. \<open>own_cooldownUntil\<close>
  holds the \<^verbatim>\<open>cooldownUntil\<close> written so far on the twelve objects, under the name
  each is reached by (the entry of \<^verbatim>\<open>__proto__\<close> is the property of
  \<^verbatim>\<open>Object.prototype\<close>); \<open>proto_lastSeenAt\<close> is the \<^verbatim>\<open>lastSeenAt\<close> written on
  \<^verbatim>\<open>Object.prototype\<close> (\<open>None\<close> when there is none). A \<^verbatim>\<open>lastSeenAt\<close> written
  on one of the functions is never read. A property of \<^verbatim>\<open>Object.prototype\<close> is
  inherited by every object: its name becomes one more key that \<^verbatim>\<open>room.players\<close>
  inherits, the value being a number (truthy unless 0), and the functions and the
  numbers read their \<^verbatim>\<open>cooldownUntil\<close> from it when they have none of their own.
\<close>

record runtime =
  own_cooldownUntil :: "(string \<times> int) list"
  proto_lastSeenAt :: "int option"

definition fresh_runtime :: runtime where
  "fresh_runtime = \<lparr>own_cooldownUntil = [], proto_lastSeenAt = None\<rparr>"

definition proto_cooldownUntil :: "runtime \<Rightarrow> int option" where
  "proto_cooldownUntil rt = map_of (own_cooldownUntil rt) ''__proto__''"

text \<open>
  The result of the lookup: nothing (\<^verbatim>\<open>undefined\<close>, or the number 0), a session, or
  an inherited value, given with what \<^verbatim>\<open>.cooldownUntil\<close> reads on it (\<open>None\<close> for
  \<^verbatim>\<open>undefined\<close>). On an inherited value \<^verbatim>\<open>x\<close>, \<^verbatim>\<open>y\<close> and \<^verbatim>\<open>facing\<close> are
  \<^verbatim>\<open>undefined\<close>.
\<close>

datatype lookup = Absent | Session player | Inherited "int option"

definition lookup_player :: "runtime \<Rightarrow> (string \<times> player) list \<Rightarrow> string \<Rightarrow> lookup" where
  "lookup_player rt ps k =
     (case map_of ps k of
        Some p \<Rightarrow> Session p
      | None \<Rightarrow>
          if k \<in> set proto_names then
            Inherited (case map_of (own_cooldownUntil rt) k of
                         Some c \<Rightarrow> Some c
                       | None \<Rightarrow> proto_cooldownUntil rt)
          else if (k = ''cooldownUntil'' \<and> proto_cooldownUntil rt \<notin> {None, Some 0}) \<or>
                  (k = ''lastSeenAt'' \<and> proto_lastSeenAt rt \<notin> {None, Some 0})
          then Inherited (proto_cooldownUntil rt)
          else Absent)"

text \<open>
  \<^verbatim>\<open>findOrCreateRoom\<close>: the first room in map order with fewer than two sessions and
  a falsy winner; otherwise a new room, stored with \<^verbatim>\<open>rooms.set\<close> under an id built
  from the clock and from \<^verbatim>\<open>Math.random()\<close> (the argument \<open>rnd\<close>, in \<open>[0, 1)\<close>).
  The result is the key of the room, the room and the registry.
\<close>

definition joinable :: "room_id \<times> room \<Rightarrow> bool" where
  "joinable e = (length (players (snd e)) < 2 \<and> \<not> truthy (winner (snd e)))"

definition findOrCreateRoom :: "int \<Rightarrow> real \<Rightarrow> registry \<Rightarrow> room_id \<times> room \<times> registry" where
  "findOrCreateRoom now rnd rooms =
     (case find joinable rooms of
        Some (k, r) \<Rightarrow> (k, r, rooms)
      | None \<Rightarrow>
          (let i = RoomId now \<lfloor>rnd * 1000\<rfloor>;
               r = makeRoom i
           in (i, r, AList.update i r rooms)))"

text \<open>
  The value of \<^verbatim>\<open>Number(v)\<close> for a submitted \<^verbatim>\<open>v\<close>: a finite number, \<^verbatim>\<open>NaN\<close>
  (what every non-numeric or missing value gives) or an infinity. \<^verbatim>\<open>Number(v) || 0\<close>
  replaces the falsy values \<^verbatim>\<open>NaN\<close> and \<open>0\<close> by \<open>0\<close>; what is left is a finite number
  or an infinity.
\<close>

datatype jsnum = Num real | NaN | PosInf | NegInf

datatype xreal = Fin real | PInf | NInf

fun or_zero :: "jsnum \<Rightarrow> xreal" where
  "or_zero (Num v) = (if v = 0 then Fin 0 else Fin v)"
| "or_zero NaN = Fin 0"
| "or_zero PosInf = PInf"
| "or_zero NegInf = NInf"

text \<open>\<^verbatim>\<open>clamp(v, min, max) = Math.max(min, Math.min(max, v))\<close> with finite bounds.\<close>

fun clamp :: "xreal \<Rightarrow> real \<Rightarrow> real \<Rightarrow> real" where
  "clamp (Fin v) lo hi = max lo (min hi v)"
| "clamp PInf lo hi = max lo hi"
| "clamp NInf lo hi = lo"

definition resetRoom :: "int \<Rightarrow> room \<Rightarrow> room" where
  "resetRoom now r =
     r\<lparr>projectiles := [],
       lastHitAt := 0,
       winner := None,
       players := map (\<lambda>(i, p). (i, with_id i (playerStartState (slot p) now))) (players r)\<rparr>"

section \<open>Request handlers\<close>

text \<open>
  Each handler looks the room up and then works on the room object; the part that works
  on the room is a function of its own, and the handler writes its result back under
  the room's key.
\<close>

text \<open>
  \<^verbatim>\<open>POST /api/join\<close>. \<open>uuid\<close> is the result of \<^verbatim>\<open>crypto.randomUUID()\<close>. The
  response carries the room id, the session id and the slot.
\<close>

definition join_room :: "int \<Rightarrow> string \<Rightarrow> room \<Rightarrow> nat \<times> room" where
  "join_room now uuid r =
     (let sl = length (players r);
          ps = AList.update uuid (with_id uuid (playerStartState sl now)) (players r)
      in (sl, r\<lparr>players := ps, started := (length ps = 2)\<rparr>))"

definition join :: "int \<Rightarrow> real \<Rightarrow> string \<Rightarrow> registry \<Rightarrow> (room_id \<times> string \<times> nat) \<times> registry" where
  "join now rnd uuid rooms =
     (case findOrCreateRoom now rnd rooms of
        (k, r, rooms1) \<Rightarrow>
          (case join_room now uuid r of
             (sl, r1) \<Rightarrow> ((r_id r, uuid, sl), AList.update k r1 rooms1)))"

text \<open>
  \<^verbatim>\<open>GET /api/state\<close>: 404 (\<open>None\<close>) or the room as sent, after refreshing the
  liveness stamp. The \<^verbatim>\<open>playerId\<close> of the query string is a string. \<open>rt\<close> is the
  runtime at the time of the request. For an inherited value the stamp is written on
  that value and the room is sent as it is; \<open>state_runtime\<close> is the runtime after the
  request (a write on a number has no effect, the file not being in strict mode).
\<close>

definition poll_room :: "int \<Rightarrow> string \<Rightarrow> runtime \<Rightarrow> room \<Rightarrow> room option" where
  "poll_room now playerId rt r =
     (case lookup_player rt (players r) playerId of
        Absent \<Rightarrow> None
      | Session p \<Rightarrow>
          Some (r\<lparr>players := AList.update playerId (p\<lparr>lastSeenAt := now\<rparr>) (players r)\<rparr>)
      | Inherited c \<Rightarrow> Some r)"

definition state ::
    "int \<Rightarrow> room_id \<Rightarrow> string \<Rightarrow> runtime \<Rightarrow> registry \<Rightarrow> room option \<times> registry" where
  "state now roomId playerId rt rooms =
     (case map_of rooms roomId of
        None \<Rightarrow> (None, rooms)
      | Some r \<Rightarrow>
          (case poll_room now playerId rt r of
             None \<Rightarrow> (None, rooms)
           | Some r1 \<Rightarrow> (Some r1, AList.update roomId r1 rooms)))"

definition state_runtime ::
    "int \<Rightarrow> room_id \<Rightarrow> string \<Rightarrow> runtime \<Rightarrow> registry \<Rightarrow> runtime" where
  "state_runtime now roomId playerId rt rooms =
     (case map_of rooms roomId of
        None \<Rightarrow> rt
      | Some r \<Rightarrow>
          (case lookup_player rt (players r) playerId of
             Inherited c \<Rightarrow>
               if playerId = ''__proto__'' then rt\<lparr>proto_lastSeenAt := Some now\<rparr> else rt
           | _ \<Rightarrow> rt))"

text \<open>
  \<^verbatim>\<open>POST /api/fire\<close>. The answers: status 400, \<^verbatim>\<open>{ok: false, cooldownUntil}\<close>,
  \<^verbatim>\<open>{ok: true}\<close>. \<open>pw\<close> and \<open>ang\<close> are \<^verbatim>\<open>Number(power)\<close> and \<^verbatim>\<open>Number(angle)\<close>;
  \<open>rt\<close> is the runtime at the time of the request.

  \<^verbatim>\<open>player\<close> is the result of the lookup. When it is a session, the projectile
  starts from the session's \<^verbatim>\<open>x\<close>, \<^verbatim>\<open>y\<close> and \<^verbatim>\<open>facing\<close>. When it is an inherited
  value, \<^verbatim>\<open>player.x\<close> is \<^verbatim>\<open>undefined\<close>, \<^verbatim>\<open>player.y - PLAYER_RADIUS\<close> is
  \<^verbatim>\<open>NaN\<close>, \<^verbatim>\<open>player.facing === 1\<close> is false and \<^verbatim>\<open>undefined > now\<close> is false;
  the new \<^verbatim>\<open>cooldownUntil\<close> is written on the inherited value, and \<open>fire_runtime\<close>
  is the runtime after the request.
\<close>

datatype fire_response = Bad_Request | On_Cooldown int | Fire_Ok

definition spawn ::
    "int \<Rightarrow> js_id \<Rightarrow> real option \<Rightarrow> real option \<Rightarrow> bool \<Rightarrow> jsnum \<Rightarrow> jsnum \<Rightarrow> projectile" where
  "spawn now playerId x y facing_right pw ang =
     (let clampedPower = clamp (or_zero pw) 150 900;
          clampedAngle = clamp (or_zero ang) (- pi + 0.15) (- 0.15);
          baseAngle = (if facing_right then clampedAngle else pi - clampedAngle)
      in \<lparr>proj_id = (key_of playerId, now),
          ownerId = playerId,
          proj_x = x,
          proj_y = map_option (\<lambda>v. v - PLAYER_RADIUS) y,
          vx = cos baseAngle * clampedPower,
          vy = sin baseAngle * clampedPower,
          bornAt = now\<rparr>)"

definition fire_room ::
    "int \<Rightarrow> js_id \<Rightarrow> jsnum \<Rightarrow> jsnum \<Rightarrow> runtime \<Rightarrow> room \<Rightarrow> fire_response \<times> room" where
  "fire_room now playerId pw ang rt r =
     (case lookup_player rt (players r) (key_of playerId) of
        Absent \<Rightarrow> (Bad_Request, r)
      | Session p \<Rightarrow>
          if truthy (winner r) then (Bad_Request, r)
          else if cooldownUntil p > now then (On_Cooldown (cooldownUntil p), r)
          else
            (Fire_Ok,
             r\<lparr>projectiles := projectiles r @
                  [spawn now playerId (Some (player_x p)) (Some (player_y p)) (facing p = 1) pw ang],
               players := AList.update (key_of playerId)
                  (p\<lparr>cooldownUntil := now + FIRE_COOLDOWN_MS\<rparr>) (players r)\<rparr>)
      | Inherited cu \<Rightarrow>
          if truthy (winner r) then (Bad_Request, r)
          else
            (case cu of
               Some c \<Rightarrow>
                 if c > now then (On_Cooldown c, r)
                 else (Fire_Ok,
                       r\<lparr>projectiles := projectiles r @ [spawn now playerId None None False pw ang]\<rparr>)
             | None \<Rightarrow>
                 (Fire_Ok,
                  r\<lparr>projectiles := projectiles r @ [spawn now playerId None None False pw ang]\<rparr>)))"

definition fire ::
    "int \<Rightarrow> room_id \<Rightarrow> js_id \<Rightarrow> jsnum \<Rightarrow> jsnum \<Rightarrow> runtime \<Rightarrow> registry \<Rightarrow>
     fire_response \<times> registry" where
  "fire now roomId playerId pw ang rt rooms =
     (case map_of rooms roomId of
        None \<Rightarrow> (Bad_Request, rooms)
      | Some r \<Rightarrow>
          (case fire_room now playerId pw ang rt r of
             (Fire_Ok, r1) \<Rightarrow> (Fire_Ok, AList.update roomId r1 rooms)
           | (resp, r1) \<Rightarrow> (resp, rooms)))"

definition fire_runtime ::
    "int \<Rightarrow> room_id \<Rightarrow> js_id \<Rightarrow> jsnum \<Rightarrow> jsnum \<Rightarrow> runtime \<Rightarrow> registry \<Rightarrow> runtime" where
  "fire_runtime now roomId playerId pw ang rt rooms =
     (case map_of rooms roomId of
        None \<Rightarrow> rt
      | Some r \<Rightarrow>
          (case lookup_player rt (players r) (key_of playerId) of
             Inherited cu \<Rightarrow>
               if fst (fire_room now playerId pw ang rt r) = Fire_Ok \<and>
                  key_of playerId \<in> set proto_names
               then rt\<lparr>own_cooldownUntil :=
                        AList.update (key_of playerId) (now + FIRE_COOLDOWN_MS)
                          (own_cooldownUntil rt)\<rparr>
               else rt
           | _ \<Rightarrow> rt))"

text \<open>\<^verbatim>\<open>POST /api/restart\<close>: \<open>False\<close> is the 404 answer.\<close>

definition restart_room :: "int \<Rightarrow> room \<Rightarrow> room" where
  "restart_room now r =
     (let r1 = resetRoom now r in r1\<lparr>started := (length (players r1) = 2)\<rparr>)"

definition restart :: "int \<Rightarrow> room_id \<Rightarrow> registry \<Rightarrow> bool \<times> registry" where
  "restart now roomId rooms =
     (case map_of rooms roomId of
        None \<Rightarrow> (False, rooms)
      | Some r \<Rightarrow> (True, AList.update roomId (restart_room now r) rooms))"

section \<open>The interval callback\<close>

text \<open>The liveness sweep: the \<^verbatim>\<open>delete room.players[pid]\<close> loop.\<close>

definition sweep :: "int \<Rightarrow> (string \<times> player) list \<Rightarrow> (string \<times> player) list" where
  "sweep now ps = filter (\<lambda>(i, p). \<not> (now - lastSeenAt p > 30000)) ps"

text \<open>
  The \<^verbatim>\<open>ids.forEach((id, index) => ...)\<close> loop: every session becomes
  \<^verbatim>\<open>{ id, ...playerStartState(index), hp, lastSeenAt }\<close>.
\<close>

definition rebuild_one :: "int \<Rightarrow> nat \<times> string \<times> player \<Rightarrow> string \<times> player" where
  "rebuild_one now e =
     (case e of (index, i, p) \<Rightarrow>
        (i, (with_id i (playerStartState index now))\<lparr>hp := hp p, lastSeenAt := lastSeenAt p\<rparr>))"

definition rebuild :: "int \<Rightarrow> (string \<times> player) list \<Rightarrow> (string \<times> player) list" where
  "rebuild now ps = map (rebuild_one now) (enumerate 0 ps)"

text \<open>
  Sums and comparisons with a coordinate that may be \<^verbatim>\<open>undefined\<close> or \<^verbatim>\<open>NaN\<close>:
  the sum is \<^verbatim>\<open>NaN\<close>, the comparison is false.
\<close>

definition nan_add :: "real option \<Rightarrow> real \<Rightarrow> real option" where
  "nan_add a b = map_option (\<lambda>v. v + b) a"

definition nan_less :: "real option \<Rightarrow> real \<Rightarrow> bool" where
  "nan_less a b = (case a of None \<Rightarrow> False | Some v \<Rightarrow> v < b)"

definition nan_greater :: "real option \<Rightarrow> real \<Rightarrow> bool" where
  "nan_greater a b = (case a of None \<Rightarrow> False | Some v \<Rightarrow> v > b)"

text \<open>The three assignments at the head of the \<^verbatim>\<open>filter\<close> callback.\<close>

definition integrate :: "projectile \<Rightarrow> projectile" where
  "integrate proj =
     (let dt = 1 / 60;
          p1 = proj\<lparr>vy := vy proj + GRAVITY * dt\<rparr>;
          p2 = p1\<lparr>proj_x := nan_add (proj_x p1) (vx p1 * dt)\<rparr>
      in p2\<lparr>proj_y := nan_add (proj_y p2) (vy p2 * dt)\<rparr>)"

definition expired :: "int \<Rightarrow> projectile \<Rightarrow> bool" where
  "expired now proj = (now - bornAt proj > PROJECTILE_LIFETIME_MS)"

definition out_of_bounds :: "projectile \<Rightarrow> bool" where
  "out_of_bounds proj =
     (nan_less (proj_x proj) (- 100) \<or> nan_greater (proj_x proj) (ARENA_WIDTH + 100) \<or>
      nan_greater (proj_y proj) (ARENA_HEIGHT + 100))"

text \<open>
  The distance test of the inner loop. With a coordinate that is \<^verbatim>\<open>NaN\<close> the left
  side is \<^verbatim>\<open>NaN\<close> and the test is false.
\<close>

definition collides :: "projectile \<Rightarrow> player \<Rightarrow> bool" where
  "collides proj target =
     (case (proj_x proj, proj_y proj) of
        (Some x, Some y) \<Rightarrow>
          (let dx = player_x target - x;
               dy = player_y target - PLAYER_RADIUS / 2 - y;
               radius = PLAYER_RADIUS + PROJECTILE_RADIUS
           in dx * dx + dy * dy \<le> radius * radius)
      | _ \<Rightarrow> False)"

text \<open>
  The inner loop \<^verbatim>\<open>for (const target of Object.values(room.players))\<close>: the first
  session that is not skipped and passes the test loses one hit point. The result is
  the changed session list and the session that was hit, or \<open>None\<close> when the loop ends
  without a hit. \<^verbatim>\<open>target.id === proj.ownerId\<close> holds only when the owner is the
  string that is the session's id.
\<close>

fun hit_scan :: "int \<Rightarrow> int \<Rightarrow> projectile \<Rightarrow> (string \<times> player) list \<Rightarrow>
    ((string \<times> player) list \<times> player) option" where
  "hit_scan now lastHit proj [] = None"
| "hit_scan now lastHit proj ((i, target) # ts) =
     (if Str (player_id target) = ownerId proj \<or> hp target \<le> 0 then
        map_option (\<lambda>(ts', t). ((i, target) # ts', t)) (hit_scan now lastHit proj ts)
      else if collides proj target \<and> now - lastHit > HIT_COOLDOWN_MS then
        (let t = target\<lparr>hp := hp target - 1\<rparr> in Some ((i, t) # ts, t))
      else
        map_option (\<lambda>(ts', t). ((i, target) # ts', t)) (hit_scan now lastHit proj ts))"

text \<open>
  One call of the \<^verbatim>\<open>filter\<close> callback. The outcome names the \<^verbatim>\<open>return\<close> that was
  taken: the three \<^verbatim>\<open>return false\<close> in source order, or the final \<^verbatim>\<open>return true\<close>.
  The projectile object is updated in place whatever the outcome.
\<close>

datatype outcome = Expired | Out_Of_Bounds | Hit | Kept

definition proj_step :: "int \<Rightarrow> projectile \<Rightarrow> room \<Rightarrow> outcome \<times> projectile \<times> room" where
  "proj_step now proj0 r =
     (let proj = integrate proj0 in
      if expired now proj then (Expired, proj, r)
      else if out_of_bounds proj then (Out_Of_Bounds, proj, r)
      else
        (case hit_scan now (lastHitAt r) proj (players r) of
           None \<Rightarrow> (Kept, proj, r)
         | Some (ps, target) \<Rightarrow>
             (Hit, proj,
              r\<lparr>players := ps,
                lastHitAt := now,
                winner := (if hp target \<le> 0 then Some (ownerId proj) else winner r)\<rparr>)))"

text \<open>
  \<^verbatim>\<open>room.projectiles.filter(...)\<close>: the callback runs on every projectile in list
  order, each call seeing the room as the earlier calls left it.
\<close>

fun run_filter :: "int \<Rightarrow> projectile list \<Rightarrow> room \<Rightarrow> (outcome \<times> projectile) list \<times> room" where
  "run_filter now [] r = ([], r)"
| "run_filter now (proj # projs) r =
     (case proj_step now proj r of
        (out, proj', r1) \<Rightarrow>
          (case run_filter now projs r1 of
             (res, r2) \<Rightarrow> ((out, proj') # res, r2)))"

definition kept :: "(outcome \<times> projectile) list \<Rightarrow> projectile list" where
  "kept res = map snd (filter (\<lambda>(out, proj). out = Kept) res)"

text \<open>
  The body of the loop over \<^verbatim>\<open>rooms.values()\<close> for one room. \<open>None\<close> is
  \<^verbatim>\<open>rooms.delete(room.id)\<close>. The second component lists the outcomes of the filter
  callback in this tick (empty when the loop body leaves at a \<^verbatim>\<open>continue\<close>).
\<close>

definition tick_room_log :: "int \<Rightarrow> room \<Rightarrow> (room \<times> outcome list) option" where
  "tick_room_log now r =
     (let ids = sweep now (players r) in
      if length ids = 0 then None
      else
        (let r1 = r\<lparr>players := rebuild now ids\<rparr>;
             r2 = r1\<lparr>started := (length ids = 2)\<rparr>
         in if \<not> started r2 \<or> truthy (winner r2) then Some (r2, [])
            else
              (case run_filter now (projectiles r2) r2 of
                 (res, r3) \<Rightarrow> Some (r3\<lparr>projectiles := kept res\<rparr>, map fst res))))"

definition tick_room :: "int \<Rightarrow> room \<Rightarrow> room option" where
  "tick_room now r = map_option fst (tick_room_log now r)"

text \<open>The whole callback: every room of the registry in map order.\<close>

fun tick :: "int \<Rightarrow> registry \<Rightarrow> registry" where
  "tick now [] = []"
| "tick now ((k, r) # rooms) =
     (case tick_room now r of
        None \<Rightarrow> tick now rooms
      | Some r1 \<Rightarrow> (k, r1) # tick now rooms)"

section \<open>Runs of the server\<close>

text \<open>
  The server's state changes only in the synchronous part of a handler or in the
  interval callback, so a run is a sequence of events, each with its clock reading.
  A state or fire request also carries the runtime it meets, which is
  \<open>fresh_runtime\<close> as long as no request has gone through an inherited key; a run
  may carry any runtime at any request, so the runs include those of the server.
\<close>

datatype event =
    Join int real string
  | State int room_id string runtime
  | Fire int room_id js_id jsnum jsnum runtime
  | Restart int room_id
  | Tick int

fun handle :: "event \<Rightarrow> registry \<Rightarrow> registry" where
  "handle (Join now rnd uuid) rooms = snd (join now rnd uuid rooms)"
| "handle (State now roomId playerId rt) rooms = snd (state now roomId playerId rt rooms)"
| "handle (Fire now roomId playerId pw ang rt) rooms =
     snd (fire now roomId playerId pw ang rt rooms)"
| "handle (Restart now roomId) rooms = snd (restart now roomId rooms)"
| "handle (Tick now) rooms = tick now rooms"

text \<open>
  What the platform guarantees of an event: \<^verbatim>\<open>Math.random()\<close> lies in \<open>[0, 1)\<close> and
  \<^verbatim>\<open>crypto.randomUUID()\<close> is a non-empty string.
\<close>

fun event_ok :: "event \<Rightarrow> bool" where
  "event_ok (Join now rnd uuid) = (0 \<le> rnd \<and> rnd < 1 \<and> uuid \<noteq> [])"
| "event_ok _ = True"

definition run :: "event list \<Rightarrow> registry" where
  "run evs = foldl (\<lambda>rooms e. handle e rooms) [] evs"

inductive reachable :: "registry \<Rightarrow> bool" where
  start: "reachable []"
| step: "reachable rooms \<Longrightarrow> event_ok e \<Longrightarrow> reachable (handle e rooms)"


text \<open>
  Runs of one room between two restarts: ticks interleaved with the join, state and
  fire requests that reach the room. \<open>hit_times\<close> lists, in order, the clock reading of every hit point that
  is taken off in the run (one entry for each time the callback leaves at the
  \<^verbatim>\<open>return false\<close> that follows \<^verbatim>\<open>target.hp -= 1\<close>).
\<close>

datatype room_event =
    Join_Ev int string
  | Poll_Ev int string runtime
  | Fire_Ev int js_id jsnum jsnum runtime
  | Tick_Ev int

definition hits :: "outcome list \<Rightarrow> nat" where
  "hits outs = length (filter (\<lambda>out. out = Hit) outs)"

fun hit_times :: "room_event list \<Rightarrow> room \<Rightarrow> int list" where
  "hit_times [] r = []"
| "hit_times (Join_Ev now uuid # evs) r = hit_times evs (snd (join_room now uuid r))"
| "hit_times (Poll_Ev now playerId rt # evs) r =
     hit_times evs (case poll_room now playerId rt r of None \<Rightarrow> r | Some r1 \<Rightarrow> r1)"
| "hit_times (Fire_Ev now playerId pw ang rt # evs) r =
     hit_times evs (snd (fire_room now playerId pw ang rt r))"
| "hit_times (Tick_Ev now # evs) r =
     (case tick_room_log now r of
        None \<Rightarrow> []
      | Some (r1, outs) \<Rightarrow> replicate (hits outs) now @ hit_times evs r1)"

text \<open>The sum of the hit points of a session list.\<close>

definition total_hp :: "(string \<times> player) list \<Rightarrow> int" where
  "total_hp ps = sum_list (map (\<lambda>e. hp (snd e)) ps)"

text \<open>What every room of a reachable registry satisfies.\<close>

definition room_inv :: "room \<Rightarrow> bool" where
  "room_inv r =
     (started r = (length (players r) = 2) \<and>
      list_all (\<lambda>e. fst e \<noteq> [] \<and> player_id (snd e) = fst e) (players r) \<and>
      list_all (\<lambda>proj. truthy (Some (ownerId proj))) (projectiles r) \<and>
      (winner r \<noteq> None \<longrightarrow> truthy (winner r)) \<and>
      (list_ex (\<lambda>e. hp (snd e) \<le> 0) (players r) \<longrightarrow> winner r \<noteq> None))"

definition registry_inv :: "registry \<Rightarrow> bool" where
  "registry_inv rooms = (distinct (map fst rooms) \<and> list_all (\<lambda>e. room_inv (snd e)) rooms)"

section \<open>Concrete runs\<close>

text \<open>
  A run of one room, from the empty room. Session \<open>s\<close> joins at time 0 and never
  polls; alone in the room it fires twice straight up; \<open>t\<close> joins; the tick at 30001
  removes \<open>s\<close> for inactivity and moves \<open>t\<close> to slot 0, under the two projectiles;
  \<open>n\<close> joins and the following ticks run the projectile pass.
\<close>

definition straight_up :: jsnum where
  "straight_up = Num (- (pi / 2))"

definition c2_run :: "room_event list" where
  "c2_run =
     [Join_Ev 0 ''s'',
      Fire_Ev 29990 (Str ''s'') (Num 150) straight_up fresh_runtime, Tick_Ev 29991,
      Fire_Ev 29992 (Str ''s'') (Num 150) straight_up fresh_runtime,
      Join_Ev 29999 ''t'', Tick_Ev 30001, Join_Ev 30002 ''n'',
      Tick_Ev 30003, Tick_Ev 30020, Tick_Ev 30904]"

text \<open>The room of that run just before the tick at 30003.\<close>

definition c2_room :: room where
  "c2_room =
     \<lparr>r_id = RoomId 0 0,
      players =
        [(''t'', \<lparr>player_id = ''t'', slot = 0, hp = 5, cooldownUntil = 0, player_x = 120,
                  player_y = 480, color = ''#4c9dff'', facing = 1, lastSeenAt = 29999\<rparr>),
         (''n'', \<lparr>player_id = ''n'', slot = 1, hp = 5, cooldownUntil = 0, player_x = 880,
                  player_y = 480, color = ''#ff5b8a'', facing = - 1, lastSeenAt = 30002\<rparr>)],
      projectiles =
        [\<lparr>proj_id = (''s'', 29990), ownerId = Str ''s'', proj_x = Some 120, proj_y = Some 452,
          vx = 0, vy = - 150, bornAt = 29990\<rparr>,
         \<lparr>proj_id = (''s'', 29992), ownerId = Str ''s'', proj_x = Some 120, proj_y = Some 452,
          vx = 0, vy = - 150, bornAt = 29992\<rparr>],
      lastHitAt = 0, started = True, winner = None\<rparr>"

text \<open>Two sessions joined: \<open>a\<close> in slot 0, \<open>b\<close> in slot 1.\<close>

definition two_joined :: registry where
  "two_joined = run [Join 0 0 ''a'', Join 1 0 ''b'']"



text \<open>
  A run of the server that ends a match. Session \<open>s\<close> joins at time 0 and never
  polls; alone in the room it fires five times straight up (no projectile moves while
  the room holds one session); \<open>t\<close> joins; the tick at 30001 removes \<open>s\<close> for
  inactivity and moves \<open>t\<close> to slot 0, under the five projectiles; \<open>n\<close> joins, and
  five ticks whose clock readings are 901 ms apart each take one hit point off \<open>t\<close>.
\<close>

definition match_run :: "event list" where
  "match_run =
     [Join 0 0 ''s'',
      Fire 29990 (RoomId 0 0) (Str ''s'') (Num 150) straight_up fresh_runtime, Tick 29991,
      Fire 29992 (RoomId 0 0) (Str ''s'') (Num 150) straight_up fresh_runtime, Tick 29993,
      Fire 29994 (RoomId 0 0) (Str ''s'') (Num 150) straight_up fresh_runtime, Tick 29995,
      Fire 29996 (RoomId 0 0) (Str ''s'') (Num 150) straight_up fresh_runtime, Tick 29997,
      Fire 29998 (RoomId 0 0) (Str ''s'') (Num 150) straight_up fresh_runtime,
      Join 29999 0 ''t'', Tick 30001, Join 30002 0 ''n'',
      Tick 30003, Tick 30904, Tick 31805, Tick 32706, Tick 33607]"

text \<open>The room at the end of that run, and the room one tick before the end.\<close>

definition match_over :: room where
  "match_over =
     \<lparr>r_id = RoomId 0 0,
      players =
        [(''t'', \<lparr>player_id = ''t'', slot = 0, hp = 0, cooldownUntil = 0, player_x = 120,
                  player_y = 480, color = ''#4c9dff'', facing = 1, lastSeenAt = 29999\<rparr>),
         (''n'', \<lparr>player_id = ''n'', slot = 1, hp = 5, cooldownUntil = 0, player_x = 880,
                  player_y = 480, color = ''#ff5b8a'', facing = - 1, lastSeenAt = 30002\<rparr>)],
      projectiles = [], lastHitAt = 33607, started = True, winner = Some (Str ''s'')\<rparr>"

definition match_point :: room where
  "match_point =
     \<lparr>r_id = RoomId 0 0,
      players =
        [(''t'', \<lparr>player_id = ''t'', slot = 0, hp = 1, cooldownUntil = 0, player_x = 120,
                  player_y = 480, color = ''#4c9dff'', facing = 1, lastSeenAt = 29999\<rparr>),
         (''n'', \<lparr>player_id = ''n'', slot = 1, hp = 5, cooldownUntil = 0, player_x = 880,
                  player_y = 480, color = ''#ff5b8a'', facing = - 1, lastSeenAt = 30002\<rparr>)],
      projectiles =
        [\<lparr>proj_id = (''s'', 29998), ownerId = Str ''s'', proj_x = Some 120, proj_y = Some 444.5,
          vx = 0, vy = - 90, bornAt = 29998\<rparr>],
      lastHitAt = 32706, started = True, winner = None\<rparr>"


text \<open>The registry \<open>two_joined\<close> after session \<open>a\<close> has fired at time 1000.\<close>

definition after_first_fire :: registry where
  "after_first_fire = snd (fire 1000 (RoomId 0 0) (Str ''a'') (Num 500) straight_up fresh_runtime two_joined)"

text \<open>
  A match with a restart. Sessions \<open>a\<close> and \<open>b\<close> join; \<open>a\<close> fires at 1000 with
  power 900 at the angle whose cosine is 77/85 and whose sine is -36/85; the callback
  runs every 16 ms and the 54th tick, at 1864, hits \<open>b\<close>. At 1865 the room is
  restarted and \<open>a\<close> fires the same shot again; its 54th tick, at 2729, hits \<open>b\<close>.
\<close>

definition low_shot :: jsnum where
  "low_shot = Num (- arccos (77 / 85))"

fun ticks :: "nat \<Rightarrow> int \<Rightarrow> event list" where
  "ticks 0 t = []"
| "ticks (Suc n) t = Tick (t + 16) # ticks n (t + 16)"

definition flight :: "int \<Rightarrow> event list" where
  "flight t = ticks 53 t"

definition restart_run_a :: "event list" where
  "restart_run_a =
     [Join 0 0 ''a'', Join 1 0 ''b'',
      Fire 1000 (RoomId 0 0) (Str ''a'') (Num 900) low_shot fresh_runtime] @ flight 1000"

definition restart_run_b :: "event list" where
  "restart_run_b = restart_run_a @ [Tick 1864]"

definition restart_run_c :: "event list" where
  "restart_run_c =
     restart_run_b @
     [Restart 1865 (RoomId 0 0),
      Fire 1865 (RoomId 0 0) (Str ''a'') (Num 900) low_shot fresh_runtime] @ flight 1865"

definition restart_run_d :: "event list" where
  "restart_run_d = restart_run_c @ [Tick 2729]"

text \<open>
  The room of that match one tick before a hit (the shot was fired at \<open>t\<close>, the
  sessions were last seen at \<open>sa\<close> and \<open>sb\<close>, the last hit was at \<open>lh\<close>) and just
  after it.
\<close>

definition before_hit :: "int \<Rightarrow> int \<Rightarrow> int \<Rightarrow> room" where
  "before_hit t sa sb =
     \<lparr>r_id = RoomId 0 0,
      players =
        [(''a'', \<lparr>player_id = ''a'', slot = 0, hp = 5, cooldownUntil = 0, player_x = 120,
                  player_y = 480, color = ''#4c9dff'', facing = 1, lastSeenAt = sa\<rparr>),
         (''b'', \<lparr>player_id = ''b'', slot = 1, hp = 5, cooldownUntil = 0, player_x = 880,
                  player_y = 480, color = ''#ff5b8a'', facing = - 1, lastSeenAt = sb\<rparr>)],
      projectiles =
        [\<lparr>proj_id = (''a'', t), ownerId = Str ''a'', proj_x = Some (14283 / 17),
          proj_y = Some (32167 / 68), vx = 13860 / 17, vy = 7035 / 17, bornAt = t\<rparr>],
      lastHitAt = 0, started = True, winner = None\<rparr>"

definition after_hit :: "int \<Rightarrow> int \<Rightarrow> int \<Rightarrow> room" where
  "after_hit lh sa sb =
     \<lparr>r_id = RoomId 0 0,
      players =
        [(''a'', \<lparr>player_id = ''a'', slot = 0, hp = 5, cooldownUntil = 0, player_x = 120,
                  player_y = 480, color = ''#4c9dff'', facing = 1, lastSeenAt = sa\<rparr>),
         (''b'', \<lparr>player_id = ''b'', slot = 1, hp = 4, cooldownUntil = 0, player_x = 880,
                  player_y = 480, color = ''#ff5b8a'', facing = - 1, lastSeenAt = sb\<rparr>)],
      projectiles = [], lastHitAt = lh, started = True, winner = None\<rparr>"

text \<open>The hit points of the sessions of every room, in order.\<close>

definition hps :: "registry \<Rightarrow> int list list" where
  "hps rooms = map (\<lambda>e. map (\<lambda>s. hp (snd s)) (players (snd e))) rooms"

section \<open>Facts about the projectile pass\<close>

lemma hit_scan_gate:
  "hit_scan now lh proj ps = Some (ps', t) \<Longrightarrow> now - lh > HIT_COOLDOWN_MS"
  by (induction ps arbitrary: ps' t) (auto split: if_splits simp: Let_def)

lemma hit_scan_total:
  "hit_scan now lh proj ps = Some (ps', t) \<Longrightarrow> total_hp ps' = total_hp ps - 1"
  by (induction ps arbitrary: ps' t) (auto split: if_splits simp: Let_def total_hp_def)


lemma proj_step_cases:
  "proj_step now proj r = (out, proj', r') \<Longrightarrow>
     proj' = integrate proj \<and>
     (out \<noteq> Hit \<longrightarrow> r' = r) \<and>
     (out = Hit \<longrightarrow> now - lastHitAt r > HIT_COOLDOWN_MS \<and> lastHitAt r' = now \<and>
        total_hp (players r') = total_hp (players r) - 1)"
  by (auto simp: proj_step_def Let_def split: if_splits option.splits
           dest: hit_scan_gate hit_scan_total)

lemma run_filter_hits:
  "run_filter now projs r = (res, r') \<Longrightarrow>
     hits (map fst res) \<le> 1 \<and>
     total_hp (players r') = total_hp (players r) - int (hits (map fst res)) \<and>
     (hits (map fst res) = 0 \<longrightarrow> r' = r) \<and>
     (hits (map fst res) = 1 \<longrightarrow> now - lastHitAt r > HIT_COOLDOWN_MS \<and> lastHitAt r' = now)"
proof (induction projs arbitrary: r res r')
  case Nil
  then show ?case by (simp add: hits_def)
next
  case (Cons proj projs)
  obtain out proj' r1 where s: "proj_step now proj r = (out, proj', r1)"
    by (cases "proj_step now proj r") auto
  obtain res1 r2 where f: "run_filter now projs r1 = (res1, r2)"
    by (cases "run_filter now projs r1") auto
  from Cons.prems s f have eq: "res = (out, proj') # res1" "r' = r2" by auto
  note ih = Cons.IH[OF f]
  note st = proj_step_cases[OF s]
  show ?case
  proof (cases "out = Hit")
    case True
    with st have g: "now - lastHitAt r > HIT_COOLDOWN_MS" "lastHitAt r1 = now"
      "total_hp (players r1) = total_hp (players r) - 1" by auto
    have "hits (map fst res1) = 0"
    proof (rule ccontr)
      assume "hits (map fst res1) \<noteq> 0"
      with ih have "hits (map fst res1) = 1" by linarith
      with ih have "now - lastHitAt r1 > HIT_COOLDOWN_MS" by simp
      with g show False by simp
    qed
    with ih g True eq show ?thesis by (simp add: hits_def)
  next
    case False
    with st have "r1 = r" by simp
    with ih False eq show ?thesis by (simp add: hits_def)
  qed
qed


section \<open>Facts about one tick of a room\<close>

lemma rebuild_hps:
  "map (\<lambda>e. hp (snd e)) (map (rebuild_one now) (enumerate n ps)) = map (\<lambda>e. hp (snd e)) ps"
  by (induction ps arbitrary: n) (auto simp: rebuild_one_def)

lemma total_hp_rebuild: "total_hp (rebuild now ps) = total_hp ps"
  using rebuild_hps[of now 0 ps] by (simp add: total_hp_def rebuild_def)

lemma tick_room_log_hits:
  assumes "tick_room_log now r = Some (r1, outs)"
  shows "hits outs \<le> 1 \<and>
      total_hp (players r1) = total_hp (sweep now (players r)) - int (hits outs) \<and>
      (hits outs = 0 \<longrightarrow> lastHitAt r1 = lastHitAt r) \<and>
      (hits outs = 1 \<longrightarrow> now - lastHitAt r > HIT_COOLDOWN_MS \<and> lastHitAt r1 = now)"
proof (cases "length (sweep now (players r)) = 2 \<and> \<not> truthy (winner r)")
  case False
  with assms have "r1 = r\<lparr>players := rebuild now (sweep now (players r)),
                          started := (length (sweep now (players r)) = 2)\<rparr>" "outs = []"
    by (auto simp: tick_room_log_def Let_def split: if_splits)
  then show ?thesis
    by (simp add: hits_def total_hp_rebuild)
next
  case True
  let ?r2 = "r\<lparr>players := rebuild now (sweep now (players r)),
               started := (length (sweep now (players r)) = 2)\<rparr>"
  obtain res r3 where f: "run_filter now (projectiles ?r2) ?r2 = (res, r3)"
    by (cases "run_filter now (projectiles ?r2) ?r2") auto
  with assms True have eq: "r1 = r3\<lparr>projectiles := kept res\<rparr>" "outs = map fst res"
    by (auto simp: tick_room_log_def Let_def split: if_splits)
  from run_filter_hits[OF f] eq show ?thesis
    by (auto simp: total_hp_rebuild)
qed

lemma lastHitAt_join_room: "lastHitAt (snd (join_room now uuid r)) = lastHitAt r"
  by (simp add: join_room_def Let_def)

lemma lastHitAt_poll_room: "poll_room now i rt r = Some r1 \<Longrightarrow> lastHitAt r1 = lastHitAt r"
  by (auto simp: poll_room_def split: lookup.splits)

lemma lastHitAt_fire_room: "lastHitAt (snd (fire_room now i pw ang rt r)) = lastHitAt r"
  by (simp add: fire_room_def split: lookup.splits option.splits)

lemma hit_times_spaced:
  "sorted_wrt (\<lambda>s t. t - s > HIT_COOLDOWN_MS) (hit_times evs r) \<and>
   (\<forall>t \<in> set (hit_times evs r). t - lastHitAt r > HIT_COOLDOWN_MS)"
proof (induction evs r rule: hit_times.induct)
  case (1 r)
  then show ?case by simp
next
  case (2 now uuid evs r)
  then show ?case by (simp add: lastHitAt_join_room)
next
  case (3 now playerId rt evs r)
  then show ?case by (auto split: option.splits dest: lastHitAt_poll_room)
next
  case (4 now playerId pw ang rt evs r)
  then show ?case by (simp add: lastHitAt_fire_room)
next
  case (5 now evs r)
  show ?case
  proof (cases "tick_room_log now r")
    case None
    then show ?thesis by simp
  next
    case (Some a)
    obtain r1 outs where a: "a = (r1, outs)" by (cases a) auto
    with Some have t: "tick_room_log now r = Some (r1, outs)" by simp
    from 5[OF Some a[symmetric]] 
    have ih: "sorted_wrt (\<lambda>s t. t - s > HIT_COOLDOWN_MS) (hit_times evs r1)"
      "\<forall>t \<in> set (hit_times evs r1). t - lastHitAt r1 > HIT_COOLDOWN_MS" by auto
    note tk = tick_room_log_hits[OF t]
    then consider "hits outs = 0" | "hits outs = 1" by linarith
    then show ?thesis
    proof cases
      case 1
      with tk ih t show ?thesis by simp
    next
      case 2
      with tk ih t show ?thesis by (auto simp: sorted_wrt_append)
    qed
  qed
qed

lemma spaced_window:
  "sorted_wrt (\<lambda>s t. t - s > (d::int)) ts \<Longrightarrow>
   length (filter (\<lambda>t. a \<le> t \<and> t \<le> a + d) ts) \<le> 1"
proof (induction ts)
  case Nil
  then show ?case by simp
next
  case (Cons x xs)
  show ?case
  proof (cases "a \<le> x \<and> x \<le> a + d")
    case True
    with Cons.prems have "\<forall>y \<in> set xs. \<not> (a \<le> y \<and> y \<le> a + d)" by auto
    then have "filter (\<lambda>t. a \<le> t \<and> t \<le> a + d) xs = []" by (simp add: filter_empty_conv)
    with True show ?thesis by simp
  next
    case False
    with Cons show ?thesis by auto
  qed
qed


section \<open>Evaluating concrete runs\<close>

lemma clamp_straight_up: "clamp (Fin (- (pi / 2))) (- pi + 0.15) (- 0.15) = - (pi / 2)"
  using pi_ge_two by (simp add: min_def max_def)

lemma spawn_straight_up:
  "spawn now i x y True pw straight_up =
     \<lparr>proj_id = (key_of i, now), ownerId = i, proj_x = x,
      proj_y = map_option (\<lambda>v. v - 28) y,
      vx = 0, vy = - clamp (or_zero pw) 150 900, bornAt = now\<rparr>"
  unfolding spawn_def straight_up_def Let_def using clamp_straight_up by simp

lemma sin_low_shot: "sin (arccos (77 / 85)) = (36 / 85 :: real)"
proof -
  have "sin (arccos (77 / 85)) = sqrt (1 - (77 / 85 :: real)\<^sup>2)"
    by (rule sin_arccos) simp_all
  also have "1 - (77 / 85 :: real)\<^sup>2 = (36 / 85)\<^sup>2" by (simp add: power2_eq_square)
  also have "sqrt ((36 / 85 :: real)\<^sup>2) = 36 / 85" by simp
  finally show ?thesis .
qed

lemma low_shot_bounds: "0.15 \<le> arccos (77 / 85 :: real) \<and> arccos (77 / 85 :: real) \<le> pi - 0.15"
proof -
  have "0 \<le> arccos (77 / 85 :: real)" by (rule arccos_lbound) simp_all
  then have "sin (arccos (77 / 85 :: real)) \<le> arccos (77 / 85)" by (rule sin_x_le_x)
  then have lo: "0.15 \<le> arccos (77 / 85 :: real)" by (simp add: sin_low_shot)
  have "arccos (77 / 85 :: real) \<le> pi / 2" by (rule arccos_le_pi2) simp_all
  with pi_ge_two have hi: "arccos (77 / 85 :: real) \<le> pi - 0.15" by simp
  from lo hi show ?thesis by simp
qed

lemma clamp_low_shot:
  "clamp (or_zero low_shot) (- pi + 0.15) (- 0.15) = - arccos (77 / 85)"
proof -
  from low_shot_bounds have "arccos (77 / 85 :: real) \<noteq> 0" by auto
  then have "or_zero low_shot = Fin (- arccos (77 / 85))" by (simp add: low_shot_def)
  with low_shot_bounds show ?thesis by (simp add: min_def max_def)
qed

lemma spawn_low_shot:
  "spawn now i x y True (Num 900) low_shot =
     \<lparr>proj_id = (key_of i, now), ownerId = i, proj_x = x,
      proj_y = map_option (\<lambda>v. v - 28) y,
      vx = 13860 / 17, vy = - (6480 / 17), bornAt = now\<rparr>"
  unfolding spawn_def Let_def clamp_low_shot by (simp add: sin_low_shot)

lemmas eval_defs =
  fresh_runtime_def proto_cooldownUntil_def join_def join_room_def fire_def fire_room_def state_def poll_room_def restart_def
  restart_room_def resetRoom_def findOrCreateRoom_def joinable_def truthy_def makeRoom_def
  lookup_player_def proto_names_def
  playerStartState_def with_id_def tick_room_def tick_room_log_def sweep_def rebuild_def
  rebuild_one_def proj_step_def integrate_def expired_def out_of_bounds_def collides_def
  nan_add_def nan_less_def nan_greater_def kept_def hits_def Let_def

lemma c2_run_hit_times: "hit_times c2_run (makeRoom (RoomId 0 0)) = [30003, 30904]"
  by (simp add: c2_run_def eval_defs spawn_straight_up)

lemma c2_tick:
  "tick_room_log 30003 c2_room =
     Some (c2_room\<lparr>players :=
        [(''t'', \<lparr>player_id = ''t'', slot = 0, hp = 4, cooldownUntil = 0, player_x = 120,
                  player_y = 480, color = ''#4c9dff'', facing = 1, lastSeenAt = 29999\<rparr>),
         (''n'', \<lparr>player_id = ''n'', slot = 1, hp = 5, cooldownUntil = 0, player_x = 880,
                  player_y = 480, color = ''#ff5b8a'', facing = - 1, lastSeenAt = 30002\<rparr>)],
        projectiles := [\<lparr>proj_id = (''s'', 29992), ownerId = Str ''s'', proj_x = Some 120,
          proj_y = Some 449.75, vx = 0, vy = - 135, bornAt = 29992\<rparr>],
        lastHitAt := 30003\<rparr>, [Hit, Kept])"
  by (simp add: c2_room_def eval_defs)

lemma run_snoc: "run (evs @ [e]) = handle e (run evs)"
  by (simp add: run_def)

lemma run_append: "run (evs @ evs') = foldl (\<lambda>rooms e. handle e rooms) (run evs) evs'"
  by (simp add: run_def)

lemma reachable_run: "list_all event_ok evs \<Longrightarrow> reachable (run evs)"
proof (induction evs rule: rev_induct)
  case Nil
  then show ?case by (simp add: run_def reachable.start)
next
  case (snoc e evs)
  then show ?case by (simp add: run_snoc reachable.step)
qed

lemma restart_run_a_eval: "run restart_run_a = [(RoomId 0 0, before_hit 1000 0 1)]"
  by (simp add: restart_run_a_def before_hit_def flight_def run_def eval_defs spawn_low_shot
        eval_nat_numeral)

lemma restart_run_b_eval: "run restart_run_b = [(RoomId 0 0, after_hit 1864 0 1)]"
  by (simp add: restart_run_b_def run_snoc restart_run_a_eval)
     (simp add: before_hit_def after_hit_def eval_defs)

lemma restart_run_c_eval: "run restart_run_c = [(RoomId 0 0, before_hit 1865 1865 1865)]"
  by (simp add: restart_run_c_def run_append restart_run_b_eval)
     (simp add: before_hit_def after_hit_def flight_def eval_defs spawn_low_shot
        eval_nat_numeral)

lemma restart_run_d_eval: "run restart_run_d = [(RoomId 0 0, after_hit 2729 1865 1865)]"
  by (simp add: restart_run_d_def run_snoc restart_run_c_eval)
     (simp add: before_hit_def after_hit_def eval_defs)

lemma restart_run_ok: "list_all event_ok restart_run_d"
  by (simp add: restart_run_d_def restart_run_c_def restart_run_b_def restart_run_a_def
        flight_def eval_nat_numeral)

section \<open>The room-wide hit cooldown\<close>

text \<open>
  C2, as the code has it. Over any run of a room made of ticks and of join, poll and
  fire requests, with no restart, the hit points taken off are more than 900 ms apart,
  so that no window of 900 ms holds two of them: one tick takes off at most one hit
  point in the whole room, it does so only when \<open>now - lastHitAt > 900\<close>, and it then
  sets \<open>lastHitAt\<close> to \<open>now\<close>. A restart sets \<open>lastHitAt\<close> to 0, which opens the
  gate again at once.
\<close>

theorem hit_cooldown_room_wide:
  "sorted_wrt (\<lambda>s t. t - s > HIT_COOLDOWN_MS) (hit_times evs r) \<and>
   (\<forall>a. length (filter (\<lambda>t. a \<le> t \<and> t \<le> a + HIT_COOLDOWN_MS) (hit_times evs r)) \<le> 1) \<and>
   (\<forall>now r1 outs. tick_room_log now r = Some (r1, outs) \<longrightarrow>
      hits outs \<le> 1 \<and>
      total_hp (players r1) = total_hp (sweep now (players r)) - int (hits outs) \<and>
      (hits outs = 1 \<longrightarrow> now - lastHitAt r > HIT_COOLDOWN_MS \<and> lastHitAt r1 = now)) \<and>
   (\<forall>now. lastHitAt (restart_room now r) = 0)"
proof -
  have sp: "sorted_wrt (\<lambda>s t. t - s > HIT_COOLDOWN_MS) (hit_times evs r)"
    using hit_times_spaced by blast
  have "\<forall>a. length (filter (\<lambda>t. a \<le> t \<and> t \<le> a + HIT_COOLDOWN_MS) (hit_times evs r)) \<le> 1"
    using spaced_window[OF sp] by blast
  moreover have "\<forall>now. lastHitAt (restart_room now r) = 0"
    by (simp add: restart_room_def resetRoom_def Let_def)
  ultimately show ?thesis using sp tick_room_log_hits by blast
qed

theorem hit_cooldown_room_wide_witness:
  "hit_times c2_run (makeRoom (RoomId 0 0)) = [30003, 30904] \<and>
   sorted_wrt (\<lambda>s t. t - s > HIT_COOLDOWN_MS) (hit_times c2_run (makeRoom (RoomId 0 0))) \<and>
   length (filter (\<lambda>t. 30003 \<le> t \<and> t \<le> 30003 + HIT_COOLDOWN_MS)
             (hit_times c2_run (makeRoom (RoomId 0 0)))) \<le> 1 \<and>
   map_option snd (tick_room_log 30003 c2_room) = Some [Hit, Kept] \<and>
   map_option (\<lambda>a. lastHitAt (fst a)) (tick_room_log 30003 c2_room) = Some 30003 \<and>
   map_option (\<lambda>a. total_hp (players (fst a))) (tick_room_log 30003 c2_room) = Some 9 \<and>
   total_hp (sweep 30003 (players c2_room)) = 10 \<and>
   30003 - lastHitAt c2_room > HIT_COOLDOWN_MS \<and>
   lastHitAt (restart_room 30004 c2_room) = 0"
  using hit_cooldown_room_wide[of c2_run "makeRoom (RoomId 0 0)"] c2_run_hit_times
    c2_tick hit_cooldown_room_wide[of "[]" c2_room]
  by (simp add: c2_room_def total_hp_def sweep_def)

text \<open>
  C2 as stated fails: with a restart between them, two hit points are taken off
  within 900 ms. In the match above the tick at 1864 takes \<open>b\<close> from 5 to 4; the
  restart at 1865 puts \<open>b\<close> back to 5 and \<open>lastHitAt\<close> back to 0; the tick at 2729,
  865 ms after the first hit, takes \<open>b\<close> from 5 to 4 again.
\<close>

theorem hit_cooldown_reset_by_restart:
  "reachable (run restart_run_d) \<and>
   hps (run restart_run_a) = [ [5, 5] ] \<and>
   restart_run_b = restart_run_a @ [Tick 1864] \<and> hps (run restart_run_b) = [ [5, 4] ] \<and>
   hps (run restart_run_c) = [ [5, 5] ] \<and>
   restart_run_d = restart_run_c @ [Tick 2729] \<and> hps (run restart_run_d) = [ [5, 4] ] \<and>
   2729 - 1864 \<le> HIT_COOLDOWN_MS"
proof -
  have "reachable (run restart_run_d)"
    by (rule reachable_run) (rule restart_run_ok)
  moreover have "hps (run restart_run_a) = [ [5, 5] ]" "hps (run restart_run_b) = [ [5, 4] ]"
    "hps (run restart_run_c) = [ [5, 5] ]" "hps (run restart_run_d) = [ [5, 4] ]"
    by (simp_all add: restart_run_a_eval restart_run_b_eval restart_run_c_eval
          restart_run_d_eval hps_def before_hit_def after_hit_def)
  moreover have "restart_run_b = restart_run_a @ [Tick 1864]"
    "restart_run_d = restart_run_c @ [Tick 2729]"
    by (simp_all add: restart_run_b_def restart_run_d_def)
  ultimately show ?thesis by simp
qed

section \<open>The fire request\<close>

lemma two_joined_eval:
  "two_joined =
     [(RoomId 0 0,
       \<lparr>r_id = RoomId 0 0,
        players =
          [(''a'', \<lparr>player_id = ''a'', slot = 0, hp = 5, cooldownUntil = 0, player_x = 120,
                    player_y = 480, color = ''#4c9dff'', facing = 1, lastSeenAt = 0\<rparr>),
           (''b'', \<lparr>player_id = ''b'', slot = 1, hp = 5, cooldownUntil = 0, player_x = 880,
                    player_y = 480, color = ''#ff5b8a'', facing = - 1, lastSeenAt = 1\<rparr>)],
        projectiles = [], lastHitAt = 0, started = True, winner = None\<rparr>)]"
  by (simp add: two_joined_def run_def eval_defs)


lemma clamp_bounds: "lo \<le> hi \<Longrightarrow> lo \<le> clamp v lo hi \<and> clamp v lo hi \<le> hi"
  by (cases v) auto

lemma angle_bounds_ordered: "- pi + 0.15 \<le> (- 0.15 :: real)"
  using pi_ge_two by simp

lemma clamp_angle_zero: "clamp (Fin 0) (- pi + 0.15) (- 0.15) = - 0.15"
  using pi_ge_two by (simp add: min_def max_def)

lemma spawn_default_left:
  "spawn now i x y False pw NaN =
     \<lparr>proj_id = (key_of i, now), ownerId = i, proj_x = x,
      proj_y = map_option (\<lambda>v. v - 28) y,
      vx = cos (pi + 0.15) * clamp (or_zero pw) 150 900,
      vy = sin (pi + 0.15) * clamp (or_zero pw) 150 900, bornAt = now\<rparr>"
  unfolding spawn_def Let_def using clamp_angle_zero by simp

lemma map_of_update_same: "map_of (AList.update k v al) k = Some v"
  by (simp add: update_conv')

text \<open>
  What the power and the angle of a request become, written out: a value that is not
  a number counts as 0 and is clamped up to 150, or down to \<open>- 0.15\<close>.
\<close>

lemma clamped_power:
  "clamp (or_zero pw) 150 900 =
     (case pw of Num v \<Rightarrow> max 150 (min 900 v) | NaN \<Rightarrow> 150 | PosInf \<Rightarrow> 900 | NegInf \<Rightarrow> 150)"
  by (cases pw) auto

lemma clamped_angle:
  "clamp (or_zero ang) (- pi + 0.15) (- 0.15) =
     (case ang of Num v \<Rightarrow> max (- pi + 0.15) (min (- 0.15) v) | NaN \<Rightarrow> - 0.15
      | PosInf \<Rightarrow> - 0.15 | NegInf \<Rightarrow> - pi + 0.15)"
  using angle_bounds_ordered by (cases ang) (auto simp: min_def max_def)

text \<open>
  What holds of a request whose \<^verbatim>\<open>playerId\<close> is the key of a session of the room:
  when it is accepted, one projectile is appended; it starts at the session's
  position moved up by the player radius and its velocity is \<open>(cos e * p, sin e * p)\<close>
  with the clamped power \<open>p\<close> and the clamped angle, mirrored unless the session
  faces right.
\<close>

lemma fire_by_session:
  assumes "fire now k i pw ang rt rooms = (Fire_Ok, rooms')"
    and "map_of rooms k = Some r" and "map_of (players r) (key_of i) = Some p"
  shows "\<exists>r1. map_of rooms' k = Some r1 \<and>
     (let p_c = (case pw of Num v \<Rightarrow> max 150 (min 900 v) | NaN \<Rightarrow> 150
                 | PosInf \<Rightarrow> 900 | NegInf \<Rightarrow> 150);
          a_c = (case ang of Num v \<Rightarrow> max (- pi + 0.15) (min (- 0.15) v) | NaN \<Rightarrow> - 0.15
                 | PosInf \<Rightarrow> - 0.15 | NegInf \<Rightarrow> - pi + 0.15);
          e = (if facing p = 1 then a_c else pi - a_c)
      in 150 \<le> p_c \<and> p_c \<le> 900 \<and> - pi + 0.15 \<le> a_c \<and> a_c \<le> - 0.15 \<and>
         projectiles r1 = projectiles r @
           [\<lparr>proj_id = (key_of i, now), ownerId = i, proj_x = Some (player_x p),
             proj_y = Some (player_y p - PLAYER_RADIUS),
             vx = cos e * p_c, vy = sin e * p_c, bornAt = now\<rparr>])"
proof -
  from assms obtain r1 where f: "fire_room now i pw ang rt r = (Fire_Ok, r1)"
    and rooms': "rooms' = AList.update k r1 rooms"
    by (auto simp: fire_def split: prod.splits fire_response.splits)
  from f assms(3) have r1: "r1 = r\<lparr>projectiles := projectiles r @
        [spawn now i (Some (player_x p)) (Some (player_y p)) (facing p = 1) pw ang],
      players := AList.update (key_of i) (p\<lparr>cooldownUntil := now + FIRE_COOLDOWN_MS\<rparr>) (players r)\<rparr>"
    by (auto simp: fire_room_def lookup_player_def split: if_splits)
  have b1: "150 \<le> clamp (or_zero pw) 150 900 \<and> clamp (or_zero pw) 150 900 \<le> 900"
    by (rule clamp_bounds) simp
  have b2: "- pi + 0.15 \<le> clamp (or_zero ang) (- pi + 0.15) (- 0.15) \<and>
            clamp (or_zero ang) (- pi + 0.15) (- 0.15) \<le> - 0.15"
    by (rule clamp_bounds) (rule angle_bounds_ordered)
  have "map_of rooms' k = Some r1" by (simp add: rooms' map_of_update_same)
  with r1 b1 b2 show ?thesis
    unfolding Let_def clamped_power[symmetric] clamped_angle[symmetric] spawn_def
    by (intro exI[of _ r1]) simp
qed

text \<open>
  Requests through inherited keys, in the room of \<open>a\<close> and \<open>b\<close>. The fire request
  at 1000 in the name of \<^verbatim>\<open>constructor\<close> leaves \<^verbatim>\<open>cooldownUntil = 2500\<close> on the
  function found, and the same request at 1033 is answered with that cooldown. A
  state request in the name of \<^verbatim>\<open>constructor\<close> is answered with the room, which it
  leaves as it is. The key \<^verbatim>\<open>lastSeenAt\<close> is not found at first; the state request
  at 5 in the name of \<^verbatim>\<open>__proto__\<close> writes \<^verbatim>\<open>lastSeenAt = 5\<close> on
  \<^verbatim>\<open>Object.prototype\<close>, after which the key is found.
\<close>

lemma inherited_key_requests:
  "fire_runtime 1000 (RoomId 0 0) (Str ''constructor'') (Num 500) NaN fresh_runtime two_joined =
     \<lparr>own_cooldownUntil = [(''constructor'', 2500)], proto_lastSeenAt = None\<rparr> \<and>
   fst (fire 1033 (RoomId 0 0) (Str ''constructor'') (Num 500) NaN
          \<lparr>own_cooldownUntil = [(''constructor'', 2500)], proto_lastSeenAt = None\<rparr>
          (snd (fire 1000 (RoomId 0 0) (Str ''constructor'') (Num 500) NaN fresh_runtime
                  two_joined))) = On_Cooldown 2500 \<and>
   state 5 (RoomId 0 0) ''constructor'' fresh_runtime two_joined =
     (map_of two_joined (RoomId 0 0), two_joined) \<and>
   state 5 (RoomId 0 0) ''lastSeenAt'' fresh_runtime two_joined = (None, two_joined) \<and>
   state_runtime 5 (RoomId 0 0) ''__proto__'' fresh_runtime two_joined =
     \<lparr>own_cooldownUntil = [], proto_lastSeenAt = Some 5\<rparr> \<and>
   state 6 (RoomId 0 0) ''lastSeenAt'' \<lparr>own_cooldownUntil = [], proto_lastSeenAt = Some 5\<rparr>
     two_joined = (map_of two_joined (RoomId 0 0), two_joined)"
  by (simp add: two_joined_eval eval_defs fire_runtime_def state_runtime_def
        spawn_default_left)

text \<open>
  C4 fails on the code. The handler takes \<^verbatim>\<open>room.players[playerId]\<close> for the
  session and answers 400 when it is falsy, but on a plain object the lookup also
  finds what every object inherits. In the room of \<open>a\<close> and \<open>b\<close>, a request with
  \<^verbatim>\<open>playerId: "constructor"\<close> and neither power nor angle is accepted although the
  room has no such session. The projectile it appends has no position (\<^verbatim>\<open>x\<close> is
  \<^verbatim>\<open>undefined\<close> and \<^verbatim>\<open>y\<close> is \<^verbatim>\<open>NaN\<close>); its power is 150 and its angle is
  \<open>pi - (- 0.15)\<close>.
\<close>

theorem fire_accepts_inherited_key:
  "map_option (\<lambda>r. map fst (players r)) (map_of two_joined (RoomId 0 0)) = Some [''a'', ''b''] \<and>
   fst (fire 1000 (RoomId 0 0) (Str ''constructor'') NaN NaN fresh_runtime two_joined) = Fire_Ok \<and>
   map_option projectiles
     (map_of (snd (fire 1000 (RoomId 0 0) (Str ''constructor'') NaN NaN fresh_runtime two_joined))
        (RoomId 0 0)) =
     Some [\<lparr>proj_id = (''constructor'', 1000), ownerId = Str ''constructor'',
            proj_x = None, proj_y = None,
            vx = cos (pi + 0.15) * 150, vy = sin (pi + 0.15) * 150, bornAt = 1000\<rparr>]"
  by (simp add: two_joined_eval eval_defs spawn_default_left)


section \<open>The collision test\<close>


lemma hit_scan_Some:
  "hit_scan now lh proj ps = Some (ps', t') \<Longrightarrow>
     \<exists>j i t. j < length ps \<and> ps ! j = (i, t) \<and> t' = t\<lparr>hp := hp t - 1\<rparr> \<and>
       ps' = ps[j := (i, t')] \<and>
       Str (player_id t) \<noteq> ownerId proj \<and> 0 < hp t \<and> collides proj t \<and>
       now - lh > HIT_COOLDOWN_MS \<and>
       (\<forall>j' < j. Str (player_id (snd (ps ! j'))) = ownerId proj \<or> hp (snd (ps ! j')) \<le> 0 \<or>
                 \<not> collides proj (snd (ps ! j')))"
proof (induction ps arbitrary: ps' t')
  case Nil
  then show ?case by simp
next
  case (Cons e ps)
  obtain i t where e: "e = (i, t)" by (cases e) auto
  show ?case
  proof (cases "Str (player_id t) \<noteq> ownerId proj \<and> 0 < hp t \<and> collides proj t \<and>
                now - lh > HIT_COOLDOWN_MS")
    case True
    with Cons.prems e have "t' = t\<lparr>hp := hp t - 1\<rparr>" "ps' = (i, t') # ps"
      by (auto simp: Let_def)
    with True e show ?thesis
      by (intro exI[of _ 0] exI[of _ i] exI[of _ t]) simp
  next
    case False
    with Cons.prems e obtain ps1 where s: "hit_scan now lh proj ps = Some (ps1, t')"
      and ps': "ps' = (i, t) # ps1"
      by (auto simp: Let_def split: if_splits)
    from hit_scan_gate[OF s] have g: "now - lh > HIT_COOLDOWN_MS" .
    from Cons.IH[OF s] obtain j i1 t1 where j: "j < length ps" "ps ! j = (i1, t1)"
      "t' = t1\<lparr>hp := hp t1 - 1\<rparr>" "ps1 = ps[j := (i1, t')]"
      "Str (player_id t1) \<noteq> ownerId proj" "0 < hp t1" "collides proj t1"
      "\<forall>j' < j. Str (player_id (snd (ps ! j'))) = ownerId proj \<or> hp (snd (ps ! j')) \<le> 0 \<or>
                 \<not> collides proj (snd (ps ! j'))"
      by blast
    have "\<forall>j' < Suc j. Str (player_id (snd ((e # ps) ! j'))) = ownerId proj \<or>
            hp (snd ((e # ps) ! j')) \<le> 0 \<or> \<not> collides proj (snd ((e # ps) ! j'))"
    proof (intro allI impI)
      fix j' assume "j' < Suc j"
      with j(8) False g e
      show "Str (player_id (snd ((e # ps) ! j'))) = ownerId proj \<or>
            hp (snd ((e # ps) ! j')) \<le> 0 \<or> \<not> collides proj (snd ((e # ps) ! j'))"
        by (cases j') auto
    qed
    with j g ps' e show ?thesis
      by (intro exI[of _ "Suc j"] exI[of _ i1] exI[of _ t1]) simp
  qed
qed





section \<open>The projectile pass of a tick\<close>


lemma run_filter_shape:
  "run_filter now projs r = (res, r') \<Longrightarrow>
     length res = length projs \<and> map snd res = map integrate projs \<and>
     (\<forall>j < length projs.
        fst (res ! j) = fst (proj_step now (projs ! j) (snd (run_filter now (take j projs) r))))"
proof (induction projs arbitrary: r res r')
  case Nil
  then show ?case by simp
next
  case (Cons proj projs)
  obtain out proj' r1 where s: "proj_step now proj r = (out, proj', r1)"
    by (cases "proj_step now proj r") auto
  obtain res1 r2 where f: "run_filter now projs r1 = (res1, r2)"
    by (cases "run_filter now projs r1") auto
  from Cons.prems s f have eq: "res = (out, proj') # res1" by auto
  from proj_step_cases[OF s] have p': "proj' = integrate proj" by simp
  note ih = Cons.IH[OF f]
  have "\<forall>j < length (proj # projs).
        fst (res ! j) = fst (proj_step now ((proj # projs) ! j)
                               (snd (run_filter now (take j (proj # projs)) r)))"
  proof (intro allI impI)
    fix j assume j: "j < length (proj # projs)"
    show "fst (res ! j) = fst (proj_step now ((proj # projs) ! j)
                               (snd (run_filter now (take j (proj # projs)) r)))"
    proof (cases j)
      case 0
      with eq s show ?thesis by simp
    next
      case (Suc j')
      with j ih have "fst (res1 ! j') =
          fst (proj_step now (projs ! j') (snd (run_filter now (take j' projs) r1)))"
        by simp
      with Suc eq s show ?thesis by (simp split: prod.splits)
    qed
  qed
  with ih eq p' show ?case by simp
qed






section \<open>Facts about the sweep and the rebuild\<close>

lemma sweep_filter:
  "sweep now ps = filter (\<lambda>e. \<not> (now - lastSeenAt (snd e) > 30000)) ps"
  unfolding sweep_def by (rule filter_cong) auto

lemma length_rebuild [simp]: "length (rebuild now ps) = length ps"
  by (simp add: rebuild_def)

lemma rebuild_nth:
  "j < length ps \<Longrightarrow>
   rebuild now ps ! j =
     (fst (ps ! j),
      \<lparr>player_id = fst (ps ! j), slot = j, hp = hp (snd (ps ! j)), cooldownUntil = 0,
       player_x = (if j = 0 then 120 else 880), player_y = 480,
       color = (if j = 0 then ''#4c9dff'' else ''#ff5b8a''),
       facing = (if j = 0 then 1 else - 1), lastSeenAt = lastSeenAt (snd (ps ! j))\<rparr>)"
  by (simp add: rebuild_def rebuild_one_def nth_enumerate_eq with_id_def playerStartState_def
        case_prod_beta)

lemma map_fst_rebuild [simp]: "map fst (rebuild now ps) = map fst ps"
  by (rule nth_equalityI) (simp_all add: rebuild_nth)

lemma integrate_ownerId [simp]: "ownerId (integrate proj) = ownerId proj"
  by (simp add: integrate_def Let_def)

lemma proj_step_effect:
  assumes "proj_step now proj r = (out, proj', r')"
  shows "(out \<noteq> Hit \<and> r' = r) \<or>
     (out = Hit \<and>
      (\<exists>j i t. j < length (players r) \<and> players r ! j = (i, t) \<and>
         Str (player_id t) \<noteq> ownerId proj \<and> 0 < hp t \<and>
         r' = r\<lparr>players := (players r)[j := (i, t\<lparr>hp := hp t - 1\<rparr>)], lastHitAt := now,
                winner := (if hp t - 1 \<le> 0 then Some (ownerId proj) else winner r)\<rparr>))"
proof (cases "out = Hit")
  case False
  with proj_step_cases[OF assms] show ?thesis by simp
next
  case True
  with assms obtain ps t' where
    s: "hit_scan now (lastHitAt r) (integrate proj) (players r) = Some (ps, t')"
    and r': "r' = r\<lparr>players := ps, lastHitAt := now,
                    winner := (if hp t' \<le> 0 then Some (ownerId (integrate proj)) else winner r)\<rparr>"
    by (auto simp: proj_step_def Let_def split: if_splits option.splits)
  from hit_scan_Some[OF s] obtain j i t where
    "j < length (players r)" "players r ! j = (i, t)" "t' = t\<lparr>hp := hp t - 1\<rparr>"
    "ps = (players r)[j := (i, t')]" "Str (player_id t) \<noteq> ownerId (integrate proj)" "0 < hp t"
    by blast
  with r' True show ?thesis by auto
qed

lemma run_filter_effect:
  assumes "run_filter now projs r = (res, r')"
  shows "r' = r \<or>
     (\<exists>proj j i t. proj \<in> set projs \<and> j < length (players r) \<and> players r ! j = (i, t) \<and>
         Str (player_id t) \<noteq> ownerId proj \<and> 0 < hp t \<and>
         r' = r\<lparr>players := (players r)[j := (i, t\<lparr>hp := hp t - 1\<rparr>)], lastHitAt := now,
                winner := (if hp t - 1 \<le> 0 then Some (ownerId proj) else winner r)\<rparr>)"
  using assms
proof (induction projs arbitrary: r res r')
  case Nil
  then show ?case by simp
next
  case (Cons proj projs)
  obtain out proj' r1 where s: "proj_step now proj r = (out, proj', r1)"
    by (cases "proj_step now proj r") auto
  obtain res1 r2 where f: "run_filter now projs r1 = (res1, r2)"
    by (cases "run_filter now projs r1") auto
  from Cons.prems s f have eq: "res = (out, proj') # res1" "r' = r2" by auto
  show ?case
  proof (cases "out = Hit")
    case False
    with proj_step_effect[OF s] have r1: "r1 = r" by simp
    from Cons.IH[OF f] show ?thesis
    proof
      assume "r2 = r1"
      with r1 eq show ?thesis by simp
    next
      assume "\<exists>proj j i t. proj \<in> set projs \<and> j < length (players r1) \<and>
         players r1 ! j = (i, t) \<and> Str (player_id t) \<noteq> ownerId proj \<and> 0 < hp t \<and>
         r2 = r1\<lparr>players := (players r1)[j := (i, t\<lparr>hp := hp t - 1\<rparr>)], lastHitAt := now,
                winner := (if hp t - 1 \<le> 0 then Some (ownerId proj) else winner r1)\<rparr>"
      then obtain pj j i t where "pj \<in> set projs" "j < length (players r1)"
         "players r1 ! j = (i, t)" "Str (player_id t) \<noteq> ownerId pj" "0 < hp t"
         "r2 = r1\<lparr>players := (players r1)[j := (i, t\<lparr>hp := hp t - 1\<rparr>)], lastHitAt := now,
                winner := (if hp t - 1 \<le> 0 then Some (ownerId pj) else winner r1)\<rparr>"
        by blast
      with r1 eq have "pj \<in> set (proj # projs) \<and> j < length (players r) \<and>
         players r ! j = (i, t) \<and> Str (player_id t) \<noteq> ownerId pj \<and> 0 < hp t \<and>
         r' = r\<lparr>players := (players r)[j := (i, t\<lparr>hp := hp t - 1\<rparr>)], lastHitAt := now,
                winner := (if hp t - 1 \<le> 0 then Some (ownerId pj) else winner r)\<rparr>"
        by simp
      then show ?thesis by blast
    qed
  next
    case True
    with proj_step_cases[OF s] have "lastHitAt r1 = now" by simp
    with run_filter_hits[OF f] have "hits (map fst res1) = 0"
      by (cases "hits (map fst res1) = 0") auto
    with run_filter_hits[OF f] have "r2 = r1" by simp
    with proj_step_effect[OF s] True eq obtain j i t where "j < length (players r)"
      "players r ! j = (i, t)" "Str (player_id t) \<noteq> ownerId proj" "0 < hp t"
      "r' = r\<lparr>players := (players r)[j := (i, t\<lparr>hp := hp t - 1\<rparr>)], lastHitAt := now,
                winner := (if hp t - 1 \<le> 0 then Some (ownerId proj) else winner r)\<rparr>"
      by auto
    then have "proj \<in> set (proj # projs) \<and> j < length (players r) \<and>
         players r ! j = (i, t) \<and> Str (player_id t) \<noteq> ownerId proj \<and> 0 < hp t \<and>
         r' = r\<lparr>players := (players r)[j := (i, t\<lparr>hp := hp t - 1\<rparr>)], lastHitAt := now,
                winner := (if hp t - 1 \<le> 0 then Some (ownerId proj) else winner r)\<rparr>"
      by simp
    then show ?thesis by blast
  qed
qed


lemma tick_room_None_iff: "tick_room now r = None \<longleftrightarrow> sweep now (players r) = []"
  by (auto simp: tick_room_def tick_room_log_def Let_def split: prod.splits)

lemma set_kept: "set (kept res) \<subseteq> set (map snd res)"
  by (auto simp: kept_def)

lemma tick_room_idle:
  assumes "sweep now (players r) \<noteq> []"
    and "length (sweep now (players r)) \<noteq> 2 \<or> truthy (winner r)"
  shows "tick_room now r =
     Some (r\<lparr>players := rebuild now (sweep now (players r)),
             started := (length (sweep now (players r)) = 2)\<rparr>)"
  using assms by (auto simp: tick_room_def tick_room_log_def Let_def)

lemma tick_room_SomeD:
  assumes "tick_room now r = Some r1"
  shows "sweep now (players r) \<noteq> [] \<and> r_id r1 = r_id r \<and>
     started r1 = (length (sweep now (players r)) = 2) \<and>
     set (projectiles r1) \<subseteq> integrate ` set (projectiles r) \<union> set (projectiles r) \<and>
     ((players r1 = rebuild now (sweep now (players r)) \<and> winner r1 = winner r \<and>
       lastHitAt r1 = lastHitAt r) \<or>
      (length (sweep now (players r)) = 2 \<and> \<not> truthy (winner r) \<and>
       (\<exists>proj j i t. proj \<in> set (projectiles r) \<and> j < length (sweep now (players r)) \<and>
          rebuild now (sweep now (players r)) ! j = (i, t) \<and>
          Str (player_id t) \<noteq> ownerId proj \<and> 0 < hp t \<and>
          players r1 = (rebuild now (sweep now (players r)))[j := (i, t\<lparr>hp := hp t - 1\<rparr>)] \<and>
          lastHitAt r1 = now \<and>
          winner r1 = (if hp t - 1 \<le> 0 then Some (ownerId proj) else winner r))))"
proof -
  let ?ps = "rebuild now (sweep now (players r))"
  let ?r2 = "r\<lparr>players := ?ps, started := (length (sweep now (players r)) = 2)\<rparr>"
  from assms have ne: "sweep now (players r) \<noteq> []"
    using tick_room_None_iff[of now r] by auto
  show ?thesis
  proof (cases "length (sweep now (players r)) \<noteq> 2 \<or> truthy (winner r)")
    case True
    from tick_room_idle[OF ne True] assms have "r1 = ?r2" by simp
    with ne show ?thesis by simp
  next
    case False
    obtain res r3 where f: "run_filter now (projectiles ?r2) ?r2 = (res, r3)"
      by (cases "run_filter now (projectiles ?r2) ?r2") auto
    with assms False ne have r1: "r1 = r3\<lparr>projectiles := kept res\<rparr>"
      by (auto simp: tick_room_def tick_room_log_def Let_def)
    from run_filter_shape[OF f] have "map snd res = map integrate (projectiles r)" by simp
    with set_kept[of res] have pr: "set (kept res) \<subseteq> integrate ` set (projectiles r)" by simp
    from run_filter_effect[OF f] show ?thesis
    proof
      assume "r3 = ?r2"
      with r1 ne pr show ?thesis by auto
    next
      assume "\<exists>proj j i t. proj \<in> set (projectiles ?r2) \<and> j < length (players ?r2) \<and>
         players ?r2 ! j = (i, t) \<and> Str (player_id t) \<noteq> ownerId proj \<and> 0 < hp t \<and>
         r3 = ?r2\<lparr>players := (players ?r2)[j := (i, t\<lparr>hp := hp t - 1\<rparr>)], lastHitAt := now,
                winner := (if hp t - 1 \<le> 0 then Some (ownerId proj) else winner ?r2)\<rparr>"
      then obtain proj j i t where h: "proj \<in> set (projectiles r)"
         "j < length (sweep now (players r))" "?ps ! j = (i, t)"
         "Str (player_id t) \<noteq> ownerId proj" "0 < hp t"
         "r3 = ?r2\<lparr>players := ?ps[j := (i, t\<lparr>hp := hp t - 1\<rparr>)], lastHitAt := now,
                winner := (if hp t - 1 \<le> 0 then Some (ownerId proj) else winner r)\<rparr>"
        by auto
      from h(6) r1 have g: "players r1 = ?ps[j := (i, t\<lparr>hp := hp t - 1\<rparr>)]"
        "lastHitAt r1 = now"
        "winner r1 = (if hp t - 1 \<le> 0 then Some (ownerId proj) else winner r)"
        and g': "r_id r1 = r_id r" "started r1 = (length (sweep now (players r)) = 2)"
        "projectiles r1 = kept res"
        by simp_all
      from h(1-5) g have "proj \<in> set (projectiles r) \<and> j < length (sweep now (players r)) \<and>
          ?ps ! j = (i, t) \<and> Str (player_id t) \<noteq> ownerId proj \<and> 0 < hp t \<and>
          players r1 = ?ps[j := (i, t\<lparr>hp := hp t - 1\<rparr>)] \<and> lastHitAt r1 = now \<and>
          winner r1 = (if hp t - 1 \<le> 0 then Some (ownerId proj) else winner r)"
        by simp
      then have "\<exists>proj j i t. proj \<in> set (projectiles r) \<and> j < length (sweep now (players r)) \<and>
          ?ps ! j = (i, t) \<and> Str (player_id t) \<noteq> ownerId proj \<and> 0 < hp t \<and>
          players r1 = ?ps[j := (i, t\<lparr>hp := hp t - 1\<rparr>)] \<and> lastHitAt r1 = now \<and>
          winner r1 = (if hp t - 1 \<le> 0 then Some (ownerId proj) else winner r)"
        by blast
      with g' False ne pr show ?thesis by auto
    qed
  qed
qed

section \<open>Facts about the registry\<close>

lemma tick_set:
  "(k, r1) \<in> set (tick now rooms) \<longleftrightarrow> (\<exists>r. (k, r) \<in> set rooms \<and> tick_room now r = Some r1)"
  by (induction rooms) (auto split: option.splits)

lemma tick_keys: "fst ` set (tick now rooms) \<subseteq> fst ` set rooms"
  using tick_set by force

lemma distinct_tick: "distinct (map fst rooms) \<Longrightarrow> distinct (map fst (tick now rooms))"
proof (induction rooms)
  case Nil
  then show ?case by simp
next
  case (Cons e rooms)
  obtain k r where e: "e = (k, r)" by (cases e) auto
  from Cons.prems e have "k \<notin> fst ` set rooms" by simp
  with tick_keys[of now rooms] have "k \<notin> fst ` set (tick now rooms)" by blast
  with Cons e show ?case by (auto split: option.splits)
qed

lemma map_of_tick:
  "distinct (map fst rooms) \<Longrightarrow>
   map_of (tick now rooms) k = Option.bind (map_of rooms k) (tick_room now)"
proof (induction rooms)
  case Nil
  then show ?case by simp
next
  case (Cons e rooms)
  obtain k' r where e: "e = (k', r)" by (cases e) auto
  from Cons.prems e have nk: "k' \<notin> fst ` set rooms" by simp
  with tick_keys[of now rooms] have "k' \<notin> fst ` set (tick now rooms)" by blast
  then have "map_of (tick now rooms) k' = None" by (simp add: map_of_eq_None_iff)
  moreover from nk have "map_of rooms k' = None" by (simp add: map_of_eq_None_iff)
  ultimately show ?case using Cons e by (auto split: option.splits)
qed


section \<open>The liveness sweep\<close>

lemma tick_room_keys:
  assumes "tick_room now r = Some r1"
  shows "map fst (players r1) = map fst (sweep now (players r))"
proof -
  from tick_room_SomeD[OF assms]
  have "players r1 = rebuild now (sweep now (players r)) \<or>
     (\<exists>j i t. rebuild now (sweep now (players r)) ! j = (i, t) \<and>
        players r1 = (rebuild now (sweep now (players r)))[j := (i, t\<lparr>hp := hp t - 1\<rparr>)])"
    by blast
  then show ?thesis
  proof
    assume "players r1 = rebuild now (sweep now (players r))"
    then show ?thesis by simp
  next
    assume "\<exists>j i t. rebuild now (sweep now (players r)) ! j = (i, t) \<and>
        players r1 = (rebuild now (sweep now (players r)))[j := (i, t\<lparr>hp := hp t - 1\<rparr>)]"
    then obtain j i t where a: "rebuild now (sweep now (players r)) ! j = (i, t)"
      "players r1 = (rebuild now (sweep now (players r)))[j := (i, t\<lparr>hp := hp t - 1\<rparr>)]"
      by blast
    have "map fst (players r1) = (map fst (rebuild now (sweep now (players r))))[j := i]"
      by (simp add: a(2) map_update)
    also have "\<dots> = map fst (rebuild now (sweep now (players r)))"
    proof (cases "j < length (rebuild now (sweep now (players r)))")
      case True
      then have "map fst (rebuild now (sweep now (players r))) ! j =
          fst (rebuild now (sweep now (players r)) ! j)"
        by (intro nth_map)
      with a(1) have "map fst (rebuild now (sweep now (players r))) ! j = i" by simp
      then show ?thesis by (metis list_update_id)
    next
      case False
      then show ?thesis by (simp add: list_update_beyond)
    qed
    finally show ?thesis by simp
  qed
qed

text \<open>
  C9. The sweep of a tick removes from a room every session whose last-seen stamp is
  more than 30000 ms old. A room left with no session is deleted from the registry.
  A room left with exactly one session keeps it as slot 0 at the left spawn point
  \<open>(120, 480)\<close>, with its hit points and its last-seen stamp unchanged.
\<close>

theorem liveness_sweep:
  "sweep now (players r) = filter (\<lambda>e. \<not> (now - lastSeenAt (snd e) > 30000)) (players r) \<and>
   (\<forall>r1. tick_room now r = Some r1 \<longrightarrow>
      map fst (players r1) = map fst (sweep now (players r))) \<and>
   (tick_room now r = None \<longleftrightarrow> sweep now (players r) = []) \<and>
   (distinct (map fst rooms) \<longrightarrow> map_of rooms k = Some r \<longrightarrow>
      map_of (tick now rooms) k = tick_room now r) \<and>
   (\<forall>i p. sweep now (players r) = [(i, p)] \<longrightarrow>
      tick_room now r =
        Some (r\<lparr>players :=
                  [(i, \<lparr>player_id = i, slot = 0, hp = hp p, cooldownUntil = 0,
                        player_x = 120, player_y = 480, color = ''#4c9dff'', facing = 1,
                        lastSeenAt = lastSeenAt p\<rparr>)],
                started := False\<rparr>))"
proof (intro conjI allI impI)
  show "sweep now (players r) = filter (\<lambda>e. \<not> (now - lastSeenAt (snd e) > 30000)) (players r)"
    by (rule sweep_filter)
  show "tick_room now r = None \<longleftrightarrow> sweep now (players r) = []"
    by (rule tick_room_None_iff)
next
  fix r1 assume "tick_room now r = Some r1"
  then show "map fst (players r1) = map fst (sweep now (players r))"
    by (rule tick_room_keys)
next
  assume "distinct (map fst rooms)" "map_of rooms k = Some r"
  then show "map_of (tick now rooms) k = tick_room now r"
    by (simp add: map_of_tick)
next
  fix i p assume s: "sweep now (players r) = [(i, p)]"
  then have "tick_room now r =
     Some (r\<lparr>players := rebuild now (sweep now (players r)),
             started := (length (sweep now (players r)) = 2)\<rparr>)"
    by (intro tick_room_idle) simp_all
  moreover have "rebuild now [(i, p)] =
     [(i, \<lparr>player_id = i, slot = 0, hp = hp p, cooldownUntil = 0,
           player_x = 120, player_y = 480, color = ''#4c9dff'', facing = 1,
           lastSeenAt = lastSeenAt p\<rparr>)]"
    by (simp add: rebuild_def rebuild_one_def with_id_def playerStartState_def)
  ultimately show "tick_room now r =
        Some (r\<lparr>players :=
                  [(i, \<lparr>player_id = i, slot = 0, hp = hp p, cooldownUntil = 0,
                        player_x = 120, player_y = 480, color = ''#4c9dff'', facing = 1,
                        lastSeenAt = lastSeenAt p\<rparr>)],
                started := False\<rparr>)"
    using s by simp
qed

theorem liveness_sweep_witness:
  "distinct (map fst two_joined) \<and>
   map_option players (map_of (tick 30001 two_joined) (RoomId 0 0)) =
     Some [(''b'', \<lparr>player_id = ''b'', slot = 0, hp = 5, cooldownUntil = 0,
                    player_x = 120, player_y = 480, color = ''#4c9dff'', facing = 1,
                    lastSeenAt = 1\<rparr>)] \<and>
   map_option started (map_of (tick 30001 two_joined) (RoomId 0 0)) = Some False \<and>
   tick 30002 two_joined = []"
proof -
  have ev: ?thesis by (simp add: two_joined_eval eval_defs)
  from liveness_sweep[of 30001 "snd (hd two_joined)" two_joined "RoomId 0 0"]
    liveness_sweep[of 30002 "snd (hd two_joined)" two_joined "RoomId 0 0"]
  show ?thesis by (elim conjE) (rule ev)
qed


section \<open>The per-tick rebuild of the sessions\<close>

lemma tick_room_session:
  assumes t: "tick_room now r = Some r1" and j: "j < length (sweep now (players r))"
  shows "fst (players r1 ! j) = fst (sweep now (players r) ! j) \<and>
     (snd (players r1 ! j))\<lparr>hp := h\<rparr> =
       \<lparr>player_id = fst (sweep now (players r) ! j), slot = j, hp = h, cooldownUntil = 0,
        player_x = (if j = 0 then 120 else 880), player_y = 480,
        color = (if j = 0 then ''#4c9dff'' else ''#ff5b8a''),
        facing = (if j = 0 then 1 else - 1),
        lastSeenAt = lastSeenAt (snd (sweep now (players r) ! j))\<rparr> \<and>
     (hp (snd (players r1 ! j)) = hp (snd (sweep now (players r) ! j)) \<or>
      hp (snd (players r1 ! j)) = hp (snd (sweep now (players r) ! j)) - 1) \<and>
     (length (sweep now (players r)) \<noteq> 2 \<or> truthy (winner r) \<longrightarrow>
      hp (snd (players r1 ! j)) = hp (snd (sweep now (players r) ! j)))"
proof -
  let ?ps = "rebuild now (sweep now (players r))"
  note nth = rebuild_nth[OF j, of now]
  from tick_room_SomeD[OF t] consider
    (same) "players r1 = ?ps"
    | (hit) j' i t' where "length (sweep now (players r)) = 2" "\<not> truthy (winner r)"
        "j' < length (sweep now (players r))" "?ps ! j' = (i, t')"
        "players r1 = ?ps[j' := (i, t'\<lparr>hp := hp t' - 1\<rparr>)]"
    by blast
  then show ?thesis
  proof cases
    case same
    with nth show ?thesis by simp
  next
    case hit
    show ?thesis
    proof (cases "j' = j")
      case True
      with hit j nth show ?thesis by auto
    next
      case False
      with hit j nth show ?thesis by auto
    qed
  qed
qed





section \<open>The invariant of reachable registries\<close>

lemma set_update_subset: "set (AList.update k v al) \<subseteq> insert (k, v) (set al)"
  by (induction al) auto

lemma length_update_present:
  "map_of al k = Some w \<Longrightarrow> length (AList.update k v al) = length al"
proof -
  assume "map_of al k = Some w"
  then have "k \<in> set (map fst al)" by (metis map_of_eq_None_iff option.distinct(1) set_map)
  then have "map fst (AList.update k v al) = map fst al" by (simp add: update_keys)
  then have "length (map fst (AList.update k v al)) = length (map fst al)" by simp
  then show ?thesis by simp
qed

lemma list_all_update:
  "list_all P al \<Longrightarrow> P (k, v) \<Longrightarrow> list_all P (AList.update k v al)"
  using set_update_subset[of k v al] by (auto simp: list_all_iff)

lemma list_ex_update:
  "list_ex P (AList.update k v al) \<Longrightarrow> P (k, v) \<or> list_ex P al"
  using set_update_subset[of k v al] by (auto simp: list_ex_iff)

lemma room_inv_makeRoom: "room_inv (makeRoom i)"
  by (simp add: room_inv_def makeRoom_def)

lemma room_inv_join_room:
  assumes "room_inv r" and "uuid \<noteq> []"
  shows "room_inv (snd (join_room now uuid r))"
proof -
  let ?v = "with_id uuid (playerStartState (length (players r)) now)"
  have v: "player_id ?v = uuid" "hp ?v = 5"
    by (simp_all add: with_id_def playerStartState_def Let_def)
  have jr: "snd (join_room now uuid r) =
      r\<lparr>players := AList.update uuid ?v (players r),
        started := (length (AList.update uuid ?v (players r)) = 2)\<rparr>"
    by (simp add: join_room_def Let_def)
  from assms v have a: "list_all (\<lambda>e. fst e \<noteq> [] \<and> player_id (snd e) = fst e)
      (AList.update uuid ?v (players r))"
    by (intro list_all_update) (simp_all add: room_inv_def)
  have b: "list_ex (\<lambda>e. hp (snd e) \<le> 0) (AList.update uuid ?v (players r)) \<Longrightarrow>
      list_ex (\<lambda>e. hp (snd e) \<le> 0) (players r)"
    using list_ex_update[of "\<lambda>e. hp (snd e) \<le> 0" uuid ?v "players r"] v by simp
  from assms a b show ?thesis
    unfolding jr room_inv_def by auto
qed

lemma lookup_player_Session:
  "lookup_player rt ps k = Session p \<longleftrightarrow> map_of ps k = Some p"
  by (simp add: lookup_player_def split: option.splits)

lemma lookup_player_Inherited:
  "lookup_player rt ps k = Inherited c \<Longrightarrow> k \<noteq> [] \<and> map_of ps k = None"
  by (auto simp: lookup_player_def proto_names_def split: option.splits if_splits)

lemma room_inv_poll_room:
  assumes "room_inv r" and "poll_room now i rt r = Some r1"
  shows "room_inv r1"
proof (cases "r1 = r")
  case True
  with assms(1) show ?thesis by simp
next
  case False
  with assms(2) obtain p where p: "map_of (players r) i = Some p"
    and r1: "r1 = r\<lparr>players := AList.update i (p\<lparr>lastSeenAt := now\<rparr>) (players r)\<rparr>"
    by (auto simp: poll_room_def lookup_player_Session split: lookup.splits)
  from p have mem: "(i, p) \<in> set (players r)" by (rule map_of_SomeD)
  with assms(1) have ip: "i \<noteq> []" "player_id p = i"
    by (auto simp: room_inv_def list_all_iff)
  from assms(1) ip have a: "list_all (\<lambda>e. fst e \<noteq> [] \<and> player_id (snd e) = fst e)
      (AList.update i (p\<lparr>lastSeenAt := now\<rparr>) (players r))"
    by (intro list_all_update) (simp_all add: room_inv_def)
  have b: "list_ex (\<lambda>e. hp (snd e) \<le> 0) (AList.update i (p\<lparr>lastSeenAt := now\<rparr>) (players r)) \<Longrightarrow>
      list_ex (\<lambda>e. hp (snd e) \<le> 0) (players r)"
    using list_ex_update[of "\<lambda>e. hp (snd e) \<le> 0" i "p\<lparr>lastSeenAt := now\<rparr>" "players r"] mem
    by (force simp: list_ex_iff)
  from assms(1) a b length_update_present[OF p] show ?thesis
    unfolding r1 room_inv_def by auto
qed

lemma room_inv_fire_room:
  assumes "room_inv r"
  shows "room_inv (snd (fire_room now i pw ang rt r))"
proof (cases "fst (fire_room now i pw ang rt r) = Fire_Ok")
  case False
  then have "snd (fire_room now i pw ang rt r) = r"
    by (auto simp: fire_room_def split: lookup.splits option.splits if_splits)
  with assms show ?thesis by simp
next
  case True
  have c: "ownerId (spawn now i x y f pw ang) = i" for x y f
    by (simp add: spawn_def Let_def)
  show ?thesis
  proof (cases "lookup_player rt (players r) (key_of i)")
    case Absent
    with True show ?thesis by (simp add: fire_room_def)
  next
    case (Inherited cu)
    from lookup_player_Inherited[OF Inherited] have "truthy (Some i)"
      by (cases i) (simp_all add: truthy_def)
    moreover from True Inherited have "snd (fire_room now i pw ang rt r) =
        r\<lparr>projectiles := projectiles r @ [spawn now i None None False pw ang]\<rparr>"
      by (auto simp: fire_room_def split: option.splits if_splits)
    ultimately show ?thesis using assms c by (simp add: room_inv_def)
  next
    case (Session p)
    let ?k = "key_of i"
    from Session have p: "map_of (players r) ?k = Some p" by (simp add: lookup_player_Session)
    from True Session have r1: "snd (fire_room now i pw ang rt r) =
      r\<lparr>projectiles := projectiles r @
          [spawn now i (Some (player_x p)) (Some (player_y p)) (facing p = 1) pw ang],
        players := AList.update ?k (p\<lparr>cooldownUntil := now + FIRE_COOLDOWN_MS\<rparr>) (players r)\<rparr>"
      by (auto simp: fire_room_def split: if_splits)
    from p have mem: "(?k, p) \<in> set (players r)" by (rule map_of_SomeD)
    with assms have ip: "?k \<noteq> []" "player_id p = ?k"
      by (auto simp: room_inv_def list_all_iff)
    from ip(1) have tr: "truthy (Some i)" by (cases i) (simp_all add: truthy_def)
    from assms ip have a: "list_all (\<lambda>e. fst e \<noteq> [] \<and> player_id (snd e) = fst e)
        (AList.update ?k (p\<lparr>cooldownUntil := now + FIRE_COOLDOWN_MS\<rparr>) (players r))"
      by (intro list_all_update) (simp_all add: room_inv_def)
    have b: "list_ex (\<lambda>e. hp (snd e) \<le> 0)
          (AList.update ?k (p\<lparr>cooldownUntil := now + FIRE_COOLDOWN_MS\<rparr>) (players r)) \<Longrightarrow>
        list_ex (\<lambda>e. hp (snd e) \<le> 0) (players r)"
      using list_ex_update[of "\<lambda>e. hp (snd e) \<le> 0" ?k
          "p\<lparr>cooldownUntil := now + FIRE_COOLDOWN_MS\<rparr>" "players r"] mem
      by (force simp: list_ex_iff)
    from assms a b c tr length_update_present[OF p] show ?thesis
      unfolding r1 room_inv_def by auto
  qed
qed

lemma room_inv_restart_room:
  assumes "room_inv r"
  shows "room_inv (restart_room now r)"
proof -
  let ?ps = "map (\<lambda>(i, p). (i, with_id i (playerStartState (slot p) now))) (players r)"
  have r1: "restart_room now r =
      r\<lparr>projectiles := [], lastHitAt := 0, winner := None, players := ?ps,
        started := (length (players r) = 2)\<rparr>"
    by (simp add: restart_room_def resetRoom_def Let_def)
  from assms have a: "list_all (\<lambda>e. fst e \<noteq> [] \<and> player_id (snd e) = fst e) ?ps"
    by (auto simp: room_inv_def list_all_iff with_id_def)
  have b: "\<not> list_ex (\<lambda>e. hp (snd e) \<le> 0) ?ps"
    by (auto simp: list_ex_iff with_id_def playerStartState_def Let_def)
  from a b show ?thesis unfolding r1 room_inv_def by simp
qed


lemma set_sweep: "set (sweep now ps) \<subseteq> set ps"
  by (auto simp: sweep_def)

lemma room_inv_tick_room:
  assumes inv: "room_inv r" and t: "tick_room now r = Some r1"
  shows "room_inv r1"
proof -
  let ?sw = "sweep now (players r)"
  let ?ps = "rebuild now ?sw"
  note d = tick_room_SomeD[OF t]
  from tick_room_keys[OF t] have "length (map fst (players r1)) = length (map fst ?sw)" by simp
  then have len: "length (players r1) = length ?sw" by simp
  with d have st: "started r1 = (length (players r1) = 2)" by simp
  have ids: "list_all (\<lambda>e. fst e \<noteq> [] \<and> player_id (snd e) = fst e) (players r1)"
    unfolding list_all_length
  proof (intro allI impI)
    fix j assume "j < length (players r1)"
    with len have j: "j < length ?sw" by simp
    from tick_room_session[OF t j, of 0]
    have k: "fst (players r1 ! j) = fst (?sw ! j)"
      and "player_id ((snd (players r1 ! j))\<lparr>hp := 0\<rparr>) = fst (?sw ! j)"
      by simp_all
    then have i: "player_id (snd (players r1 ! j)) = fst (?sw ! j)" by simp
    from j have "?sw ! j \<in> set (players r)" using set_sweep[of now "players r"] by auto
    with inv have "fst (?sw ! j) \<noteq> []" by (auto simp: room_inv_def list_all_iff)
    with k i show "fst (players r1 ! j) \<noteq> [] \<and>
        player_id (snd (players r1 ! j)) = fst (players r1 ! j)" by simp
  qed
  from inv have own: "\<forall>proj \<in> set (projectiles r). truthy (Some (ownerId proj))"
    by (simp add: room_inv_def list_all_iff)
  with d have pr: "list_all (\<lambda>proj. truthy (Some (ownerId proj))) (projectiles r1)"
    by (auto simp: list_all_iff)
  from d consider
    (same) "players r1 = ?ps" "winner r1 = winner r"
    | (hit) proj j i t' where "\<not> truthy (winner r)" "proj \<in> set (projectiles r)"
        "j < length ?sw" "?ps ! j = (i, t')" "0 < hp t'"
        "players r1 = ?ps[j := (i, t'\<lparr>hp := hp t' - 1\<rparr>)]"
        "winner r1 = (if hp t' - 1 \<le> 0 then Some (ownerId proj) else winner r)"
    by blast
  then have w: "(winner r1 \<noteq> None \<longrightarrow> truthy (winner r1)) \<and>
      (list_ex (\<lambda>e. hp (snd e) \<le> 0) (players r1) \<longrightarrow> winner r1 \<noteq> None)"
  proof cases
    case same
    have "list_ex (\<lambda>e. hp (snd e) \<le> 0) ?ps \<Longrightarrow> list_ex (\<lambda>e. hp (snd e) \<le> 0) (players r)"
    proof -
      assume "list_ex (\<lambda>e. hp (snd e) \<le> 0) ?ps"
      then obtain j where j: "j < length ?sw" "hp (snd (?ps ! j)) \<le> 0"
        by (auto simp: list_ex_length)
      then have "hp (snd (?sw ! j)) \<le> 0" by (simp add: rebuild_nth)
      moreover from j have "?sw ! j \<in> set (players r)"
        using set_sweep[of now "players r"] by auto
      ultimately show ?thesis by (auto simp: list_ex_iff)
    qed
    with inv same show ?thesis by (auto simp: room_inv_def)
  next
    case hit
    from inv hit(1) have wn: "winner r = None" by (auto simp: room_inv_def)
    with inv have nohp: "\<not> list_ex (\<lambda>e. hp (snd e) \<le> 0) (players r)"
      by (auto simp: room_inv_def)
    from own hit(2) have o: "truthy (Some (ownerId proj))" by simp
    have "list_ex (\<lambda>e. hp (snd e) \<le> 0) (players r1) \<Longrightarrow> hp t' - 1 \<le> 0"
    proof -
      assume "list_ex (\<lambda>e. hp (snd e) \<le> 0) (players r1)"
      then obtain j' where j': "j' < length ?sw" "hp (snd (players r1 ! j')) \<le> 0"
        using len by (auto simp: list_ex_length)
      show ?thesis
      proof (cases "j' = j")
        case True
        with j' hit(3,6) show ?thesis by simp
      next
        case False
        with j' hit(6) have "hp (snd (?ps ! j')) \<le> 0" by simp
        with j' have "hp (snd (?sw ! j')) \<le> 0" by (simp add: rebuild_nth)
        moreover from j' have "?sw ! j' \<in> set (players r)"
          using set_sweep[of now "players r"] by auto
        ultimately have "list_ex (\<lambda>e. hp (snd e) \<le> 0) (players r)"
          by (auto simp: list_ex_iff)
        with nohp show ?thesis by simp
      qed
    qed
    with hit(7) wn o show ?thesis by auto
  qed
  from st ids pr w show ?thesis by (simp add: room_inv_def)
qed

lemma registry_inv_update:
  "registry_inv rooms \<Longrightarrow> room_inv v \<Longrightarrow> registry_inv (AList.update k v rooms)"
  unfolding registry_inv_def
  by (intro conjI distinct_update list_all_update) simp_all

lemma registry_inv_lookup:
  "registry_inv rooms \<Longrightarrow> map_of rooms k = Some r \<Longrightarrow> room_inv r"
  by (auto simp: registry_inv_def list_all_iff dest: map_of_SomeD)

lemma registry_inv_tick: "registry_inv rooms \<Longrightarrow> registry_inv (tick now rooms)"
  unfolding registry_inv_def list_all_iff
  using distinct_tick tick_set room_inv_tick_room by fastforce

lemma findOrCreateRoom_inv:
  assumes "registry_inv rooms" and "findOrCreateRoom now rnd rooms = (k, r, rooms1)"
  shows "registry_inv rooms1 \<and> room_inv r \<and> map_of rooms1 k = Some r \<and>
         length (players r) < 2 \<and> \<not> truthy (winner r)"
proof (cases "find joinable rooms")
  case None
  with assms(2) have "k = RoomId now \<lfloor>rnd * 1000\<rfloor>" "r = makeRoom k"
    "rooms1 = AList.update k r rooms"
    by (auto simp: findOrCreateRoom_def Let_def)
  with assms(1) show ?thesis
    by (simp add: registry_inv_update room_inv_makeRoom map_of_update_same)
      (simp add: makeRoom_def truthy_def)
next
  case (Some e)
  with assms(2) have e: "e = (k, r)" "rooms1 = rooms"
    by (auto simp: findOrCreateRoom_def split: prod.splits)
  from Some e have mem: "(k, r) \<in> set rooms" and j: "joinable (k, r)"
    by (auto simp: find_Some_iff)
  from assms(1) mem have m: "map_of rooms k = Some r"
    by (simp add: registry_inv_def)
  with assms(1) e j show ?thesis
    by (auto simp: joinable_def dest: registry_inv_lookup)
qed

lemma registry_inv_handle:
  assumes "registry_inv rooms" and "event_ok e"
  shows "registry_inv (handle e rooms)"
proof (cases e)
  case (Join now rnd uuid)
  obtain k r rooms1 where f: "findOrCreateRoom now rnd rooms = (k, r, rooms1)"
    by (cases "findOrCreateRoom now rnd rooms") auto
  then have "handle e rooms = AList.update k (snd (join_room now uuid r)) rooms1"
    using Join by (simp add: join_def split: prod.splits)
  with findOrCreateRoom_inv[OF assms(1) f] assms(2) Join show ?thesis
    by (simp add: registry_inv_update room_inv_join_room)
next
  case (State now roomId playerId rt)
  with assms(1) show ?thesis
    by (auto simp: state_def split: option.splits
          intro!: registry_inv_update dest: registry_inv_lookup room_inv_poll_room)
next
  case (Fire now roomId playerId pw ang rt)
  show ?thesis
  proof (cases "map_of rooms roomId")
    case None
    with Fire assms(1) show ?thesis by (simp add: fire_def)
  next
    case (Some r)
    with assms(1) have "room_inv r" by (auto dest: registry_inv_lookup)
    then have "room_inv (snd (fire_room now playerId pw ang rt r))" by (rule room_inv_fire_room)
    with Fire Some assms(1) show ?thesis
      by (auto simp: fire_def split: prod.splits fire_response.splits
            intro!: registry_inv_update)
  qed
next
  case (Restart now roomId)
  with assms(1) show ?thesis
    by (auto simp: restart_def split: option.splits
          intro!: registry_inv_update room_inv_restart_room dest: registry_inv_lookup)
next
  case (Tick now)
  with assms(1) show ?thesis by (simp add: registry_inv_tick)
qed

lemma reachable_inv: "reachable rooms \<Longrightarrow> registry_inv rooms"
proof (induction rule: reachable.induct)
  case start
  then show ?case by (simp add: registry_inv_def)
next
  case (step rooms e)
  then show ?case by (simp add: registry_inv_handle)
qed



section \<open>Rooms of a reachable registry\<close>

lemma match_point_eval: "run (butlast match_run) = [(RoomId 0 0, match_point)]"
  by (simp add: match_run_def match_point_def run_def eval_defs spawn_straight_up)

lemma match_over_eval: "run match_run = [(RoomId 0 0, match_over)]"
  by (simp add: match_run_def match_over_def run_def eval_defs spawn_straight_up)

lemma match_run_ok: "list_all event_ok match_run"
  by (simp add: match_run_def)


lemma fire_room_winner:
  "truthy (winner r) \<Longrightarrow> fire_room now i pw ang rt r = (Bad_Request, r)"
  by (simp add: fire_room_def split: lookup.splits)

lemma tick_sets_winner:
  assumes inv: "room_inv r" and w: "winner r = None" and t: "tick_room now r = Some r1"
  shows "winner r1 \<noteq> None \<longleftrightarrow> list_ex (\<lambda>e. hp (snd e) \<le> 0) (players r1)"
proof
  assume "list_ex (\<lambda>e. hp (snd e) \<le> 0) (players r1)"
  with room_inv_tick_room[OF inv t] show "winner r1 \<noteq> None" by (simp add: room_inv_def)
next
  assume w1: "winner r1 \<noteq> None"
  let ?ps = "rebuild now (sweep now (players r))"
  from tick_room_SomeD[OF t] show "list_ex (\<lambda>e. hp (snd e) \<le> 0) (players r1)"
  proof (elim conjE disjE exE)
    assume "winner r1 = winner r"
    with w w1 show ?thesis by simp
  next
    fix proj j i t'
    assume h: "j < length (sweep now (players r))"
      "players r1 = ?ps[j := (i, t'\<lparr>hp := hp t' - 1\<rparr>)]"
      "winner r1 = (if hp t' - 1 \<le> 0 then Some (ownerId proj) else winner r)"
    from h(3) w w1 have "hp t' - 1 \<le> 0" by (auto split: if_splits)
    moreover from h(1,2) have "players r1 ! j = (i, t'\<lparr>hp := hp t' - 1\<rparr>)"
      and "j < length (players r1)" by simp_all
    ultimately show ?thesis
      unfolding list_ex_length by (intro exI[of _ j]) simp
  qed
qed

text \<open>
  C3, as the code has it. In every room of a reachable registry, \<open>started\<close> holds iff
  the room has exactly two sessions, and a session with \<open>hp \<le> 0\<close> implies a winner
  (the converse fails once the loser has been swept). While the winner is set, every
  fire request against the room is answered 400 and changes nothing, and a tick leaves
  the projectile list and the winner as they are. A tick sets the winner of a room that
  had none exactly when it leaves a session with \<open>hp \<le> 0\<close>.
\<close>

theorem room_state_invariant:
  assumes "reachable rooms" and "map_of rooms k = Some r"
  shows "started r = (length (players r) = 2) \<and>
     (list_ex (\<lambda>e. hp (snd e) \<le> 0) (players r) \<longrightarrow> winner r \<noteq> None) \<and>
     (winner r \<noteq> None \<longrightarrow>
        (\<forall>now i pw ang rt. fire now k i pw ang rt rooms = (Bad_Request, rooms)) \<and>
        (\<forall>now r1. map_of (tick now rooms) k = Some r1 \<longrightarrow>
           projectiles r1 = projectiles r \<and> winner r1 = winner r)) \<and>
     (winner r = None \<longrightarrow>
        (\<forall>now r1. map_of (tick now rooms) k = Some r1 \<longrightarrow>
           (winner r1 \<noteq> None \<longleftrightarrow> list_ex (\<lambda>e. hp (snd e) \<le> 0) (players r1))))"
proof -
  from assms(1) have ri: "registry_inv rooms" by (rule reachable_inv)
  then have inv: "room_inv r" using assms(2) by (rule registry_inv_lookup)
  from ri have dist: "distinct (map fst rooms)" by (simp add: registry_inv_def)
  have tk: "map_of (tick now rooms) k = tick_room now r" for now
    using dist assms(2) by (simp add: map_of_tick)
  have a: "started r = (length (players r) = 2)"
    and b: "list_ex (\<lambda>e. hp (snd e) \<le> 0) (players r) \<longrightarrow> winner r \<noteq> None"
    using inv by (simp_all add: room_inv_def)
  have c: "winner r \<noteq> None \<longrightarrow>
        (\<forall>now i pw ang rt. fire now k i pw ang rt rooms = (Bad_Request, rooms)) \<and>
        (\<forall>now r1. map_of (tick now rooms) k = Some r1 \<longrightarrow>
           projectiles r1 = projectiles r \<and> winner r1 = winner r)"
  proof (intro impI conjI allI)
    assume "winner r \<noteq> None"
    with inv have tw: "truthy (winner r)" by (simp add: room_inv_def)
    show "fire now k i pw ang rt rooms = (Bad_Request, rooms)" for now i pw ang rt
      using assms(2) fire_room_winner[OF tw] by (simp add: fire_def)
    fix now r1 assume "map_of (tick now rooms) k = Some r1"
    with tk have t: "tick_room now r = Some r1" by simp
    then have "sweep now (players r) \<noteq> []" using tick_room_None_iff[of now r] by auto
    from tick_room_idle[OF this] tw t
    show "projectiles r1 = projectiles r" "winner r1 = winner r" by auto
  qed
  have d: "winner r = None \<longrightarrow>
        (\<forall>now r1. map_of (tick now rooms) k = Some r1 \<longrightarrow>
           (winner r1 \<noteq> None \<longleftrightarrow> list_ex (\<lambda>e. hp (snd e) \<le> 0) (players r1)))"
    using tk tick_sets_winner[OF inv] by simp
  from a b c d show ?thesis by blast
qed

theorem room_state_invariant_witness:
  "reachable (run match_run) \<and> map_of (run match_run) (RoomId 0 0) = Some match_over \<and>
   started match_over \<and> length (players match_over) = 2 \<and>
   list_ex (\<lambda>e. hp (snd e) \<le> 0) (players match_over) \<and> winner match_over = Some (Str ''s'') \<and>
   fire 34000 (RoomId 0 0) (Str ''n'') (Num 500) NaN fresh_runtime (run match_run) = (Bad_Request, run match_run) \<and>
   map_of (tick 34000 (run match_run)) (RoomId 0 0) = Some match_over \<and>
   reachable (run (butlast match_run)) \<and>
   map_of (run (butlast match_run)) (RoomId 0 0) = Some match_point \<and>
   winner match_point = None \<and>
   map_of (tick 33607 (run (butlast match_run))) (RoomId 0 0) = Some match_over"
proof -
  have r1: "reachable (run match_run)"
    by (rule reachable_run) (simp add: match_run_def)
  have r2: "reachable (run (butlast match_run))"
    by (rule reachable_run) (simp add: match_run_def)
  have m1: "map_of (run match_run) (RoomId 0 0) = Some match_over"
    by (simp add: match_over_eval)
  have m2: "map_of (run (butlast match_run)) (RoomId 0 0) = Some match_point"
    by (simp add: match_point_eval)
  have ev: "started match_over \<and> length (players match_over) = 2 \<and>
      list_ex (\<lambda>e. hp (snd e) \<le> 0) (players match_over) \<and> winner match_over = Some (Str ''s'') \<and>
      winner match_point = None \<and> tick_room 34000 match_over = Some match_over \<and>
      tick_room 33607 match_point = Some match_over"
    by (simp add: match_over_def match_point_def eval_defs)
  from room_state_invariant[OF r1 m1] room_state_invariant[OF r2 m2] r1 r2 m1 m2 ev
  show ?thesis by (simp add: match_over_eval match_point_eval)
qed

text \<open>
  C3 as stated fails: after the run above, the tick at 60000 removes the loser \<open>t\<close>
  for inactivity; the room keeps its winner and holds no session with \<open>hp \<le> 0\<close>.
\<close>

theorem winner_outlives_loser:
  "reachable (run (match_run @ [Tick 60000])) \<and>
   run (match_run @ [Tick 60000]) =
     [(RoomId 0 0,
       \<lparr>r_id = RoomId 0 0,
        players =
          [(''n'', \<lparr>player_id = ''n'', slot = 0, hp = 5, cooldownUntil = 0, player_x = 120,
                    player_y = 480, color = ''#4c9dff'', facing = 1, lastSeenAt = 30002\<rparr>)],
        projectiles = [], lastHitAt = 33607, started = False, winner = Some (Str ''s'')\<rparr>)]"
proof
  show "reachable (run (match_run @ [Tick 60000]))"
    by (rule reachable_run) (simp add: match_run_def)
  show "run (match_run @ [Tick 60000]) =
     [(RoomId 0 0,
       \<lparr>r_id = RoomId 0 0,
        players =
          [(''n'', \<lparr>player_id = ''n'', slot = 0, hp = 5, cooldownUntil = 0, player_x = 120,
                    player_y = 480, color = ''#4c9dff'', facing = 1, lastSeenAt = 30002\<rparr>)],
        projectiles = [], lastHitAt = 33607, started = False, winner = Some (Str ''s'')\<rparr>)]"
    by (simp add: run_snoc match_over_eval) (simp add: match_over_def eval_defs)
qed


section \<open>Restart\<close>

lemma resetRoom_nth:
  "j < length (players r) \<Longrightarrow>
   players (resetRoom now r) ! j =
     (fst (players r ! j),
      \<lparr>player_id = fst (players r ! j), slot = slot (snd (players r ! j)), hp = 5,
       cooldownUntil = 0,
       player_x = (if slot (snd (players r ! j)) = 0 then 120 else 880), player_y = 480,
       color = (if slot (snd (players r ! j)) = 0 then ''#4c9dff'' else ''#ff5b8a''),
       facing = (if slot (snd (players r ! j)) = 0 then 1 else - 1), lastSeenAt = now\<rparr>)"
  by (simp add: resetRoom_def with_id_def playerStartState_def Let_def case_prod_beta)

text \<open>
  C7, as the code has it. A restart of a known room empties the projectile list, clears
  the winner, sets \<open>lastHitAt\<close> to 0 and rebuilds every session from its slot: same
  key and slot, 5 hit points, the slot's spawn point, \<open>cooldownUntil = 0\<close>, and
  \<open>lastSeenAt\<close> set to the time of the restart.
\<close>

theorem restart_resets_room:
  assumes "map_of rooms k = Some r"
  shows "\<exists>r1. restart now k rooms = (True, AList.update k r1 rooms) \<and>
     map_of (snd (restart now k rooms)) k = Some r1 \<and>
     r_id r1 = r_id r \<and> projectiles r1 = [] \<and> winner r1 = None \<and> lastHitAt r1 = 0 \<and>
     started r1 = (length (players r) = 2) \<and>
     length (players r1) = length (players r) \<and>
     (\<forall>j < length (players r).
        players r1 ! j =
          (fst (players r ! j),
           \<lparr>player_id = fst (players r ! j), slot = slot (snd (players r ! j)),
            hp = START_HP, cooldownUntil = 0,
            player_x = (if slot (snd (players r ! j)) = 0 then 120 else ARENA_WIDTH - 120),
            player_y = ARENA_HEIGHT - 80,
            color = (if slot (snd (players r ! j)) = 0 then ''#4c9dff'' else ''#ff5b8a''),
            facing = (if slot (snd (players r ! j)) = 0 then 1 else - 1),
            lastSeenAt = now\<rparr>))"
proof -
  have p: "players (restart_room now r) = players (resetRoom now r)"
    by (simp add: restart_room_def Let_def)
  have "restart now k rooms = (True, AList.update k (restart_room now r) rooms)"
    using assms by (simp add: restart_def)
  moreover have "r_id (restart_room now r) = r_id r \<and> projectiles (restart_room now r) = [] \<and>
      winner (restart_room now r) = None \<and> lastHitAt (restart_room now r) = 0 \<and>
      started (restart_room now r) = (length (players r) = 2) \<and>
      length (players (restart_room now r)) = length (players r)"
    by (simp add: restart_room_def resetRoom_def Let_def)
  moreover have "\<forall>j < length (players r).
        players (restart_room now r) ! j =
          (fst (players r ! j),
           \<lparr>player_id = fst (players r ! j), slot = slot (snd (players r ! j)),
            hp = START_HP, cooldownUntil = 0,
            player_x = (if slot (snd (players r ! j)) = 0 then 120 else ARENA_WIDTH - 120),
            player_y = ARENA_HEIGHT - 80,
            color = (if slot (snd (players r ! j)) = 0 then ''#4c9dff'' else ''#ff5b8a''),
            facing = (if slot (snd (players r ! j)) = 0 then 1 else - 1),
            lastSeenAt = now\<rparr>)"
    unfolding p by (simp add: resetRoom_nth)
  ultimately show ?thesis
    by (intro exI[of _ "restart_room now r"]) (simp add: map_of_update_same)
qed

theorem restart_resets_room_witness:
  "map_of [(RoomId 0 0, match_over)] (RoomId 0 0) = Some match_over \<and>
   restart 40000 (RoomId 0 0) [(RoomId 0 0, match_over)] =
     (True,
      [(RoomId 0 0,
        \<lparr>r_id = RoomId 0 0,
         players =
           [(''t'', \<lparr>player_id = ''t'', slot = 0, hp = 5, cooldownUntil = 0, player_x = 120,
                     player_y = 480, color = ''#4c9dff'', facing = 1, lastSeenAt = 40000\<rparr>),
            (''n'', \<lparr>player_id = ''n'', slot = 1, hp = 5, cooldownUntil = 0, player_x = 880,
                     player_y = 480, color = ''#ff5b8a'', facing = - 1, lastSeenAt = 40000\<rparr>)],
         projectiles = [], lastHitAt = 0, started = True, winner = None\<rparr>)])"
proof -
  have h: "map_of [(RoomId 0 0, match_over)] (RoomId 0 0) = Some match_over" by simp
  have ev: ?thesis by (simp add: match_over_def eval_defs)
  from restart_resets_room[OF h, of 40000] show ?thesis by (elim exE) (rule ev)
qed

text \<open>
  C7 as stated fails: the restart does not keep the last-seen stamps. Session \<open>t\<close> of
  the finished match was last seen at 29999; after the restart at 40000 its stamp is
  40000.
\<close>

theorem restart_refreshes_last_seen:
  "run match_run = [(RoomId 0 0, match_over)] \<and>
   lastSeenAt (snd (players match_over ! 0)) = 29999 \<and>
   lastSeenAt (snd (players (snd (snd (restart 40000 (RoomId 0 0) (run match_run)) ! 0)) ! 0))
     = 40000"
  by (simp add: match_over_eval) (simp add: match_over_def eval_defs)


section \<open>Matchmaking and join\<close>










section \<open>The fire cooldown\<close>

text \<open>
  The handler's side of the limiter: a request in the name of a session is accepted
  only when the session's \<open>cooldownUntil \<le> now\<close>, and an accepted request sets its
  \<open>cooldownUntil\<close> to \<open>now + 1500\<close>. A request accepted through an inherited
  property leaves every session as it is.
\<close>

lemma fire_room_cooldown:
  assumes "fire_room now i pw ang rt r = (Fire_Ok, r1)"
  shows "(\<exists>p. map_of (players r) (key_of i) = Some p \<and> cooldownUntil p \<le> now \<and>
            map_of (players r1) (key_of i) =
              Some (p\<lparr>cooldownUntil := now + FIRE_COOLDOWN_MS\<rparr>)) \<or>
         (\<exists>cu. lookup_player rt (players r) (key_of i) = Inherited cu \<and>
            (\<forall>c. cu = Some c \<longrightarrow> c \<le> now) \<and> players r1 = players r)"
proof (cases "lookup_player rt (players r) (key_of i)")
  case Absent
  with assms show ?thesis by (simp add: fire_room_def)
next
  case (Session p)
  then have "map_of (players r) (key_of i) = Some p" by (simp add: lookup_player_Session)
  with assms Session show ?thesis
    by (auto simp: fire_room_def map_of_update_same split: if_splits)
next
  case (Inherited cu)
  with assms show ?thesis
    by (auto simp: fire_room_def split: if_splits option.splits)
qed

text \<open>
  C1 fails on the code. Session \<open>a\<close> fires at 1000 and is on cooldown until 2500: a
  second request at 1033 is refused when no tick comes between. The tick at 1016
  rebuilds the session with \<open>cooldownUntil = 0\<close>, and the request at 1033 is accepted,
  33 ms after the first shot.
\<close>

theorem fire_cooldown_cleared_by_tick:
  "fst (fire 1000 (RoomId 0 0) (Str ''a'') (Num 500) straight_up fresh_runtime two_joined) = Fire_Ok \<and>
   map_option (\<lambda>r. map (\<lambda>e. cooldownUntil (snd e)) (players r))
     (map_of after_first_fire (RoomId 0 0)) = Some [2500, 0] \<and>
   fst (fire 1033 (RoomId 0 0) (Str ''a'') (Num 500) straight_up fresh_runtime after_first_fire) = On_Cooldown 2500 \<and>
   map_option (\<lambda>r. map (\<lambda>e. cooldownUntil (snd e)) (players r))
     (map_of (tick 1016 after_first_fire) (RoomId 0 0)) = Some [0, 0] \<and>
   fst (fire 1033 (RoomId 0 0) (Str ''a'') (Num 500) straight_up fresh_runtime (tick 1016 after_first_fire)) = Fire_Ok \<and>
   map_option (\<lambda>r. map bornAt (projectiles r))
     (map_of (snd (fire 1033 (RoomId 0 0) (Str ''a'') (Num 500) straight_up fresh_runtime (tick 1016 after_first_fire)))
        (RoomId 0 0)) = Some [1000, 1033]"
  by (simp add: after_first_fire_def two_joined_eval eval_defs spawn_straight_up)

end
